theory Spec2Isabelle
  imports Main "HOL-Library.Char_ord" "HOL-Library.List_Lexorder"
begin

unbundle bit_operations_syntax

section \<open>Runtime values\<close>

text \<open>
  The values the ledger, the Merkle tree and the consensus engine handle are JSON values:
  transactions, records, proofs and candidate chains arrive as parsed request bodies.
  An object is the list of its properties in enumeration order, with distinct keys (keys
  are taken not to be array indices, which an object would enumerate first).
  Numbers are the integers (timestamps, indices, counters), exact below \<open>2^53\<close>; a
  number that is not an integer is \<open>JNumLit\<close> of its decimal rendering, which the model
  does not interpret further. A missing property (\<^verbatim>\<open>undefined\<close>) is \<open>None\<close> of an
  option. Strings are sequences of bytes (UTF-8), so lengths and letter case are those of
  ASCII text.
\<close>

datatype json =
    JNull
  | JBool bool
  | JNum int
  | JNumLit string
  | JStr string
  | JArr "json list"
  | JObj "(string \<times> json) list"

text \<open>Errors thrown by the code, as values.\<close>

datatype error =
    TypeError
  | TreeEmpty
  | NotFound
  | EmptyInput
  | ValidationError
  | InvalidTransaction
  | HashRequired
  | DuplicateVote
  | InvalidVote

subsection \<open>Decimal rendering of numbers: \<^verbatim>\<open>String(n)\<close>\<close>

definition digit_char :: "nat \<Rightarrow> char" where
  "digit_char d = ''0123456789'' ! d"

function show_nat :: "nat \<Rightarrow> string" where
  "show_nat n = (if n < 10 then [digit_char n] else show_nat (n div 10) @ [digit_char (n mod 10)])"
  by pat_completeness auto
termination
  by (relation "measure id") auto

declare show_nat.simps [simp del]

definition show_int :: "int \<Rightarrow> string" where
  "show_int i = (if i < 0 then CHR ''-'' # show_nat (nat (- i)) else show_nat (nat i))"

subsection \<open>\<^verbatim>\<open>JSON.stringify\<close>\<close>

definition hexdigit :: "nat \<Rightarrow> char" where
  "hexdigit n = ''0123456789abcdef'' ! n"

definition escape_char :: "char \<Rightarrow> string" where
  "escape_char c =
     (if c = CHR ''\"'' then [CHR 0x5C, CHR ''\"'']
      else if c = CHR 0x5C then [CHR 0x5C, CHR 0x5C]
      else if c = CHR 0x08 then [CHR 0x5C, CHR ''b'']
      else if c = CHR 0x0C then [CHR 0x5C, CHR ''f'']
      else if c = CHR 0x0A then [CHR 0x5C, CHR ''n'']
      else if c = CHR 0x0D then [CHR 0x5C, CHR ''r'']
      else if c = CHR 0x09 then [CHR 0x5C, CHR ''t'']
      else if (of_char c :: nat) < 32
        then [CHR 0x5C, CHR ''u'', CHR ''0'', CHR ''0'',
              hexdigit (of_char c div 16), hexdigit (of_char c mod 16)]
      else [c])"

definition quote :: "string \<Rightarrow> string" where
  "quote s = CHR ''\"'' # concat (map escape_char s) @ [CHR ''\"'']"

fun join :: "string \<Rightarrow> string list \<Rightarrow> string" where
  "join sep [] = []"
| "join sep [x] = x"
| "join sep (x # y # ys) = x @ sep @ join sep (y # ys)"

fun stringify :: "json \<Rightarrow> string" where
  "stringify JNull = ''null''"
| "stringify (JBool b) = (if b then ''true'' else ''false'')"
| "stringify (JNum n) = show_int n"
| "stringify (JNumLit s) = s"
| "stringify (JStr s) = quote s"
| "stringify (JArr xs) = ''['' @ join '','' (map stringify xs) @ '']''"
| "stringify (JObj kvs) =
     ''{'' @ join '','' (map (\<lambda>(k, v). quote k @ '':'' @ stringify v) kvs) @ ''}''"

subsection \<open>Truthiness, property access, letter case\<close>

fun truthy :: "json \<Rightarrow> bool" where
  "truthy JNull = False"
| "truthy (JBool b) = b"
| "truthy (JNum n) = (n \<noteq> 0)"
| "truthy (JNumLit s) = True"
| "truthy (JStr s) = (s \<noteq> [])"
| "truthy (JArr xs) = True"
| "truthy (JObj kvs) = True"

text \<open>A missing property is falsy.\<close>

fun truthy_opt :: "json option \<Rightarrow> bool" where
  "truthy_opt None = False"
| "truthy_opt (Some j) = truthy j"

text \<open>\<^verbatim>\<open>v.key\<close> on a value that is neither \<^verbatim>\<open>null\<close> nor \<^verbatim>\<open>undefined\<close>.\<close>

fun get_prop :: "json \<Rightarrow> string \<Rightarrow> json option" where
  "get_prop (JObj kvs) k = map_of kvs k"
| "get_prop _ k = None"

definition to_lower_char :: "char \<Rightarrow> char" where
  "to_lower_char c =
     (if 65 \<le> (of_char c :: nat) \<and> (of_char c :: nat) \<le> 90 then char_of (of_char c + 32 :: nat) else c)"

definition toLowerCase :: "string \<Rightarrow> string" where
  "toLowerCase s = map to_lower_char s"

definition is_digit :: "char \<Rightarrow> bool" where
  "is_digit c = (48 \<le> (of_char c :: nat) \<and> (of_char c :: nat) \<le> 57)"

definition is_hex_char :: "char \<Rightarrow> bool" where
  "is_hex_char c =
     (is_digit c \<or> (97 \<le> (of_char c :: nat) \<and> (of_char c :: nat) \<le> 102)
                \<or> (65 \<le> (of_char c :: nat) \<and> (of_char c :: nat) \<le> 70))"

text \<open>\<^verbatim>\<open>typeof data === 'string' && /^[a-f0-9]{64}$/i.test(data)\<close>\<close>

fun is_hash_string :: "json \<Rightarrow> bool" where
  "is_hash_string (JStr s) = (length s = 64 \<and> list_all is_hex_char s)"
| "is_hash_string _ = False"

subsection \<open>\<^verbatim>\<open>JSON.parse\<close>\<close>

text \<open>
  A recursive-descent reader of the JSON grammar; \<open>None\<close> is the \<^verbatim>\<open>SyntaxError\<close>.
  The fuel bounds the nesting and is taken from the length of the text. An integer literal
  becomes \<open>JNum\<close>; a literal with a fraction or an exponent is kept as \<open>JNumLit\<close>.
\<close>

definition is_ws :: "char \<Rightarrow> bool" where
  "is_ws c = (c = CHR '' '' \<or> c = CHR 0x09 \<or> c = CHR 0x0A \<or> c = CHR 0x0D)"

definition skip_ws :: "string \<Rightarrow> string" where
  "skip_ws s = dropWhile is_ws s"

definition hex_val :: "char \<Rightarrow> nat" where
  "hex_val c =
     (if is_digit c then of_char c - 48
      else if 97 \<le> (of_char c :: nat) then of_char c - 87
      else of_char c - 55)"

text \<open>The UTF-8 bytes of a code unit given by a \<^verbatim>\<open>\uXXXX\<close> escape.\<close>

definition utf8 :: "nat \<Rightarrow> string" where
  "utf8 n =
     (if n < 128 then [char_of n]
      else if n < 2048 then [char_of (192 + n div 64), char_of (128 + n mod 64)]
      else [char_of (224 + n div 4096), char_of (128 + (n div 64) mod 64), char_of (128 + n mod 64)])"

definition unescape :: "char \<Rightarrow> char option" where
  "unescape e =
     (if e = CHR ''\"'' then Some (CHR ''\"'')
      else if e = CHR 0x5C then Some (CHR 0x5C)
      else if e = CHR ''/'' then Some (CHR ''/'')
      else if e = CHR ''b'' then Some (CHR 0x08)
      else if e = CHR ''f'' then Some (CHR 0x0C)
      else if e = CHR ''n'' then Some (CHR 0x0A)
      else if e = CHR ''r'' then Some (CHR 0x0D)
      else if e = CHR ''t'' then Some (CHR 0x09)
      else None)"

text \<open>The characters of a string literal after its opening quote; \<open>acc\<close> is reversed.\<close>

fun parse_chars :: "string \<Rightarrow> string \<Rightarrow> (string \<times> string) option" where
  "parse_chars acc [] = None"
| "parse_chars acc (c # cs) =
     (if c = CHR ''\"'' then Some (rev acc, cs)
      else if c = CHR 0x5C then
        (case cs of
           [] \<Rightarrow> None
         | e # cs' \<Rightarrow>
             (case unescape e of
                Some d \<Rightarrow> parse_chars (d # acc) cs'
              | None \<Rightarrow>
                  (if e = CHR ''u'' then
                     (case cs' of
                        h1 # h2 # h3 # h4 # cs'' \<Rightarrow>
                          (if list_all is_hex_char [h1, h2, h3, h4]
                           then parse_chars
                                  (rev (utf8 (((hex_val h1 * 16 + hex_val h2) * 16 + hex_val h3) * 16
                                              + hex_val h4)) @ acc) cs''
                           else None)
                      | _ \<Rightarrow> None)
                   else None)))
      else if (of_char c :: nat) < 32 then None
      else parse_chars (c # acc) cs)"

fun digits_val :: "string \<Rightarrow> nat \<Rightarrow> nat" where
  "digits_val [] acc = acc"
| "digits_val (c # cs) acc = digits_val cs (acc * 10 + (of_char c - 48))"

text \<open>
  A number literal: \<^verbatim>\<open>-? (0 | [1-9][0-9]*) (. [0-9]+)? ([eE] [+-]? [0-9]+)?\<close>.
\<close>

definition parse_number :: "string \<Rightarrow> (json \<times> string) option" where
  "parse_number s =
     (let (sgn, s1) = (case s of c # r \<Rightarrow> if c = CHR ''-'' then (True, r) else (False, s) | [] \<Rightarrow> (False, s));
          ip = takeWhile is_digit s1;
          s2 = dropWhile is_digit s1
      in if ip = [] \<or> (hd ip = CHR ''0'' \<and> length ip > 1) then None
         else
           let (fr, s3) =
                 (case s2 of
                    c # r \<Rightarrow> if c = CHR ''.'' then (Some (takeWhile is_digit r), dropWhile is_digit r)
                             else (None, s2)
                  | [] \<Rightarrow> (None, s2));
               (ex, s4) =
                 (case s3 of
                    c # r \<Rightarrow>
                      if c = CHR ''e'' \<or> c = CHR ''E'' then
                        (let r' = (case r of d # r'' \<Rightarrow> if d = CHR ''+'' \<or> d = CHR ''-'' then r'' else r
                                   | [] \<Rightarrow> r)
                         in (Some (takeWhile is_digit r'), dropWhile is_digit r'))
                      else (None, s3)
                  | [] \<Rightarrow> (None, s3))
           in if fr = Some [] \<or> ex = Some [] then None
              else if fr = None \<and> ex = None
                then Some (JNum (if sgn then - int (digits_val ip 0) else int (digits_val ip 0)), s4)
                else Some (JNumLit (take (length s - length s4) s), s4))"

text \<open>Assigning a property: an existing key keeps its place, a new key goes to the end.\<close>

fun obj_set :: "string \<Rightarrow> json \<Rightarrow> (string \<times> json) list \<Rightarrow> (string \<times> json) list" where
  "obj_set k v [] = [(k, v)]"
| "obj_set k v ((k', v') # kvs) = (if k = k' then (k, v) # kvs else (k', v') # obj_set k v kvs)"

fun parse_value :: "nat \<Rightarrow> string \<Rightarrow> (json \<times> string) option"
  and parse_elems :: "nat \<Rightarrow> string \<Rightarrow> json list \<Rightarrow> (json \<times> string) option"
  and parse_members :: "nat \<Rightarrow> string \<Rightarrow> (string \<times> json) list \<Rightarrow> (json \<times> string) option"
where
  "parse_value n s =
     (if n = 0 then None
      else
        (case skip_ws s of
           [] \<Rightarrow> None
         | c # cs \<Rightarrow>
             if c = CHR ''n'' then (if take 3 cs = ''ull'' then Some (JNull, drop 3 cs) else None)
             else if c = CHR ''t'' then (if take 3 cs = ''rue'' then Some (JBool True, drop 3 cs) else None)
             else if c = CHR ''f'' then (if take 4 cs = ''alse'' then Some (JBool False, drop 4 cs) else None)
             else if c = CHR ''\"'' then
               (case parse_chars [] cs of None \<Rightarrow> None | Some (str, r) \<Rightarrow> Some (JStr str, r))
             else if c = CHR ''['' then
               (case skip_ws cs of
                  [] \<Rightarrow> None
                | d # r \<Rightarrow> if d = CHR '']'' then Some (JArr [], r) else parse_elems (n - 1) cs [])
             else if c = CHR ''{'' then
               (case skip_ws cs of
                  [] \<Rightarrow> None
                | d # r \<Rightarrow> if d = CHR ''}'' then Some (JObj [], r) else parse_members (n - 1) cs [])
             else parse_number (c # cs)))"
| "parse_elems n s acc =
     (if n = 0 then None
      else
        (case parse_value (n - 1) s of
           None \<Rightarrow> None
         | Some (v, r) \<Rightarrow>
             (case skip_ws r of
                [] \<Rightarrow> None
              | d # r' \<Rightarrow>
                  if d = CHR '','' then parse_elems (n - 1) r' (acc @ [v])
                  else if d = CHR '']'' then Some (JArr (acc @ [v]), r')
                  else None)))"
| "parse_members n s acc =
     (if n = 0 then None
      else
        (case skip_ws s of
           [] \<Rightarrow> None
         | q # s1 \<Rightarrow>
             if q \<noteq> CHR ''\"'' then None
             else
               (case parse_chars [] s1 of
                  None \<Rightarrow> None
                | Some (k, s2) \<Rightarrow>
                    (case skip_ws s2 of
                       [] \<Rightarrow> None
                     | col # s3 \<Rightarrow>
                         if col \<noteq> CHR '':'' then None
                         else
                           (case parse_value (n - 1) s3 of
                              None \<Rightarrow> None
                            | Some (v, r) \<Rightarrow>
                                (case skip_ws r of
                                   [] \<Rightarrow> None
                                 | d # r' \<Rightarrow>
                                     if d = CHR '','' then parse_members (n - 1) r' (obj_set k v acc)
                                     else if d = CHR ''}'' then Some (JObj (obj_set k v acc), r')
                                     else None))))))"

declare parse_value.simps [simp del] parse_elems.simps [simp del] parse_members.simps [simp del]

definition JSON_parse :: "string \<Rightarrow> json option" where
  "JSON_parse s =
     (case parse_value (2 * length s + 2) s of
        None \<Rightarrow> None
      | Some (v, r) \<Rightarrow> if skip_ws r = [] then Some v else None)"

section \<open>SHA-256 (\<^verbatim>\<open>crypto.createHash('sha256').update(s).digest('hex')\<close>)\<close>

text \<open>
  The digest function of the runtime, after FIPS 180-4, on 32-bit words held as naturals
  with the wrap-around written out. The result is the 64-character lower-case hex string.
\<close>

definition add32 :: "nat \<Rightarrow> nat \<Rightarrow> nat" where
  "add32 x y = (x + y) mod 4294967296"

definition rotr :: "nat \<Rightarrow> nat \<Rightarrow> nat" where
  "rotr n x = x div 2 ^ n + (x mod 2 ^ n) * 2 ^ (32 - n)"

definition shr :: "nat \<Rightarrow> nat \<Rightarrow> nat" where
  "shr n x = x div 2 ^ n"

definition bsig0 :: "nat \<Rightarrow> nat" where
  "bsig0 x = rotr 2 x XOR rotr 13 x XOR rotr 22 x"

definition bsig1 :: "nat \<Rightarrow> nat" where
  "bsig1 x = rotr 6 x XOR rotr 11 x XOR rotr 25 x"

definition ssig0 :: "nat \<Rightarrow> nat" where
  "ssig0 x = rotr 7 x XOR rotr 18 x XOR shr 3 x"

definition ssig1 :: "nat \<Rightarrow> nat" where
  "ssig1 x = rotr 17 x XOR rotr 19 x XOR shr 10 x"

definition ch :: "nat \<Rightarrow> nat \<Rightarrow> nat \<Rightarrow> nat" where
  "ch x y z = (x AND y) XOR ((4294967295 - x) AND z)"

definition maj :: "nat \<Rightarrow> nat \<Rightarrow> nat \<Rightarrow> nat" where
  "maj x y z = (x AND y) XOR (x AND z) XOR (y AND z)"

definition K256 :: "nat list" where
  "K256 = [
  1116352408, 1899447441, 3049323471, 3921009573, 961987163, 1508970993, 2453635748, 2870763221,
  3624381080, 310598401, 607225278, 1426881987, 1925078388, 2162078206, 2614888103, 3248222580,
  3835390401, 4022224774, 264347078, 604807628, 770255983, 1249150122, 1555081692, 1996064986,
  2554220882, 2821834349, 2952996808, 3210313671, 3336571891, 3584528711, 113926993, 338241895,
  666307205, 773529912, 1294757372, 1396182291, 1695183700, 1986661051, 2177026350, 2456956037,
  2730485921, 2820302411, 3259730800, 3345764771, 3516065817, 3600352804, 4094571909, 275423344,
  430227734, 506948616, 659060556, 883997877, 958139571, 1322822218, 1537002063, 1747873779,
  1955562222, 2024104815, 2227730452, 2361852424, 2428436474, 2756734187, 3204031479, 3329325298]"

definition H0 :: "nat list" where
  "H0 = [1779033703, 3144134277, 1013904242, 2773480762,
         1359893119, 2600822924, 528734635, 1541459225]"

definition mk_state :: "nat \<Rightarrow> nat \<Rightarrow> nat list \<Rightarrow> nat list" where
  "mk_state t1 t2 st =
     (case st of
        [a, b, c, d, e, f, g, h] \<Rightarrow> [add32 t1 t2, a, b, c, add32 d t1, e, f, g]
      | _ \<Rightarrow> st)"

fun round_step :: "nat \<Rightarrow> nat \<Rightarrow> nat list \<Rightarrow> nat list" where
  "round_step k w [a, b, c, d, e, f, g, h] =
     mk_state (add32 (add32 (add32 (add32 h (bsig1 e)) (ch e f g)) k) w)
              (add32 (bsig0 a) (maj a b c)) [a, b, c, d, e, f, g, h]"
| "round_step k w st = st"

text \<open>The message schedule as a window of the sixteen most recent words.\<close>

fun next_win :: "nat list \<Rightarrow> nat list" where
  "next_win (w0 # w1 # w2 # w3 # w4 # w5 # w6 # w7 # w8 # w9 # w10 # w11 # w12 # w13 # w14 # w15 # _) =
     [w1, w2, w3, w4, w5, w6, w7, w8, w9, w10, w11, w12, w13, w14, w15,
      add32 (add32 (add32 (ssig1 w14) w9) (ssig0 w1)) w0]"
| "next_win ws = ws"

fun rounds :: "nat list \<Rightarrow> nat list \<Rightarrow> nat list \<Rightarrow> nat list" where
  "rounds [] win st = st"
| "rounds (k # ks) win st = rounds ks (next_win win) (round_step k (hd win) st)"

definition compress :: "nat list \<Rightarrow> nat list \<Rightarrow> nat list" where
  "compress hs blk = map2 add32 hs (rounds K256 blk hs)"

fun be_words :: "nat list \<Rightarrow> nat list" where
  "be_words (a # b # c # d # rest) = (((a * 256 + b) * 256 + c) * 256 + d) # be_words rest"
| "be_words _ = []"

definition be_bytes8 :: "nat \<Rightarrow> nat list" where
  "be_bytes8 n = map (\<lambda>i. (n div 256 ^ i) mod 256) [7, 6, 5, 4, 3, 2, 1, 0]"

definition pad :: "nat list \<Rightarrow> nat list" where
  "pad bs = bs @ [128] @ replicate ((119 - length bs mod 64) mod 64) 0 @ be_bytes8 (8 * length bs)"

fun blocks :: "nat list \<Rightarrow> nat list list" where
  "blocks (w0 # w1 # w2 # w3 # w4 # w5 # w6 # w7 # w8 # w9 # w10 # w11 # w12 # w13 # w14 # w15 # rest) =
     [w0, w1, w2, w3, w4, w5, w6, w7, w8, w9, w10, w11, w12, w13, w14, w15] # blocks rest"
| "blocks _ = []"

definition hex32 :: "nat \<Rightarrow> string" where
  "hex32 w = map (\<lambda>i. hexdigit ((w div 16 ^ i) mod 16)) [7, 6, 5, 4, 3, 2, 1, 0]"

definition sha256 :: "string \<Rightarrow> string" where
  "sha256 s = concat (map hex32 (foldl compress H0 (blocks (be_words (pad (map of_char s))))))"

section \<open>Merkle tree (class \<^verbatim>\<open>MerkleTree\<close>)\<close>

record merkle_tree =
  leaves :: "string list"
  root :: "string option"
  levels :: "string list list"

text \<open>
  \<^verbatim>\<open>normalizeObject\<close>: arrays are normalised element by element; an object is rebuilt
  from its keys in sorted order (\<^verbatim>\<open>Object.keys(obj).sort()\<close>), each with its normalised
  value.
\<close>

fun normalizeObject :: "json \<Rightarrow> json" where
  "normalizeObject (JArr xs) = JArr (map normalizeObject xs)"
| "normalizeObject (JObj kvs) =
     JObj (map (\<lambda>key. (key, the (map_of (map (\<lambda>(k, v). (k, normalizeObject v)) kvs) key)))
               (sort (map fst kvs)))"
| "normalizeObject j = j"

text \<open>
  \<^verbatim>\<open>hash(data)\<close>: a string that parses as JSON is replaced by the rendering of its
  normalised value, any other string is digested as it is; a value that is not a string is
  normalised and rendered. A number literal with a fraction or an exponent, or an integer
  beyond \<open>2^53\<close>, is rendered here as it was written, where the code renders the double
  it denotes.
\<close>

definition MerkleTree_hash :: "json \<Rightarrow> string" where
  "MerkleTree_hash data =
     (case data of
        JStr s \<Rightarrow>
          (case JSON_parse s of
             Some parsed \<Rightarrow> sha256 (stringify (normalizeObject parsed))
           | None \<Rightarrow> sha256 s)
      | _ \<Rightarrow> sha256 (stringify (normalizeObject data)))"

text \<open>The \<^verbatim>\<open>for\<close> loop of \<^verbatim>\<open>buildTree\<close>: the level above \<open>currentLevel\<close>.\<close>

fun next_level :: "string list \<Rightarrow> string list" where
  "next_level (left # right # rest) = MerkleTree_hash (JStr (left @ right)) # next_level rest"
| "next_level [lst] = [MerkleTree_hash (JStr (lst @ lst))]"
| "next_level [] = []"

lemma length_next_level: "length (next_level t) = (length t + 1) div 2"
  by (induction t rule: next_level.induct) simp_all

text \<open>The \<^verbatim>\<open>while (currentLevel.length > 1)\<close> loop: all levels, the leaves first.\<close>

function build_levels :: "string list \<Rightarrow> string list list" where
  "build_levels currentLevel =
     currentLevel # (if length currentLevel > 1 then build_levels (next_level currentLevel) else [])"
  by pat_completeness auto
termination
  by (relation "measure length") (auto simp: length_next_level)

declare build_levels.simps [simp del]

definition buildTree :: "json list \<Rightarrow> merkle_tree" where
  "buildTree data =
     (if length data = 0 then \<lparr>leaves = [], root = None, levels = []\<rparr>
      else
        let lvs = map MerkleTree_hash data;
            lvls = build_levels lvs
        in \<lparr>leaves = lvs, root = Some (last lvls ! 0), levels = lvls\<rparr>)"

fun findIndex :: "('a \<Rightarrow> bool) \<Rightarrow> 'a list \<Rightarrow> nat option" where
  "findIndex P [] = None"
| "findIndex P (x # xs) = (if P x then Some 0 else map_option Suc (findIndex P xs))"

text \<open>
  The \<^verbatim>\<open>while (currentLevel < this.levels.length - 1)\<close> loop of \<^verbatim>\<open>getProof\<close>: one
  path entry for every level below the top.
\<close>

fun proof_path :: "string list list \<Rightarrow> nat \<Rightarrow> json list" where
  "proof_path (level # upper # rest) currentIndex =
     (let isLeft = (currentIndex mod 2 = 0);
          siblingIndex = (if isLeft then currentIndex + 1 else currentIndex - 1)
      in JObj [(''hash'', JStr (if siblingIndex < length level then level ! siblingIndex
                                else level ! currentIndex)),
               (''position'', JStr (if isLeft then ''right'' else ''left''))]
         # proof_path (upper # rest) (currentIndex div 2))"
| "proof_path _ currentIndex = []"

fun string_of :: "json \<Rightarrow> string" where
  "string_of (JStr s) = s"
| "string_of _ = []"

definition getProof :: "merkle_tree \<Rightarrow> json \<Rightarrow> error + json" where
  "getProof t data =
     (case root t of
        None \<Rightarrow> Inl TreeEmpty
      | Some rt \<Rightarrow>
          if rt = [] then Inl TreeEmpty
          else
            let leafHash = (if is_hash_string data then toLowerCase (string_of data)
                            else MerkleTree_hash data)
            in (case findIndex (\<lambda>h. h = leafHash) (leaves t) of
                  None \<Rightarrow> Inl NotFound
                | Some leafIndex \<Rightarrow>
                    Inr (JObj [(''leaf'', JStr leafHash),
                               (''path'', JArr (proof_path (levels t) leafIndex)),
                               (''root'', JStr rt)])))"

text \<open>
  The \<^verbatim>\<open>for (const node of proof.path)\<close> loop of \<^verbatim>\<open>verifyProof\<close>. Reading
  \<^verbatim>\<open>node.hash.toLowerCase()\<close> throws unless \<^verbatim>\<open>node.hash\<close> is a string.
\<close>

fun verify_path :: "json list \<Rightarrow> string \<Rightarrow> error + string" where
  "verify_path [] currentHash = Inr currentHash"
| "verify_path (node # rest) currentHash =
     (case get_prop node ''hash'' of
        Some (JStr h) \<Rightarrow>
          (let siblingHash = toLowerCase h
           in if get_prop node ''position'' = Some (JStr ''left'')
              then verify_path rest (sha256 (siblingHash @ currentHash))
              else verify_path rest (sha256 (currentHash @ siblingHash)))
      | _ \<Rightarrow> Inl TypeError)"

text \<open>
  \<^verbatim>\<open>static verifyProof(data, proof, root = null)\<close>. The guard
  \<^verbatim>\<open>if (!proof || !proof.path || !proof.root) return false\<close> is the \<open>else\<close> branch. A call of \<^verbatim>\<open>toLowerCase\<close> on a
  value that is not a string, and a \<^verbatim>\<open>for ... of\<close> over a value that is not an array
  of nodes, throw; the thrown error is \<open>Inl TypeError\<close>.
\<close>

definition verifyProof :: "json \<Rightarrow> json \<Rightarrow> json \<Rightarrow> error + bool" where
  "verifyProof data prf rt =
     (if truthy prf \<and> truthy_opt (get_prop prf ''path'') \<and> truthy_opt (get_prop prf ''root'')
      then
        let expectedRoot = (if truthy rt then rt else the (get_prop prf ''root''))
        in (case get_prop prf ''leaf'' of
              Some (JStr proofLeaf) \<Rightarrow>
                (let leafHash =
                       (if truthy data
                        then (if is_hash_string data then toLowerCase (string_of data)
                              else MerkleTree_hash data)
                        else toLowerCase proofLeaf)
                 in if truthy data \<and> toLowerCase leafHash \<noteq> toLowerCase proofLeaf then Inr False
                    else
                      (case get_prop prf ''path'' of
                         Some (JArr nodes) \<Rightarrow>
                           (case verify_path nodes leafHash of
                              Inl e \<Rightarrow> Inl e
                            | Inr currentHash \<Rightarrow>
                                (case expectedRoot of
                                   JStr r \<Rightarrow> Inr (toLowerCase currentHash = toLowerCase r)
                                 | _ \<Rightarrow> Inl TypeError))
                       | _ \<Rightarrow> Inl TypeError))
            | _ \<Rightarrow> Inl TypeError)
      else Inr False)"

text \<open>The number of entries of the path of a proof returned by \<^verbatim>\<open>getProof\<close>.\<close>

definition path_length :: "error + json \<Rightarrow> nat option" where
  "path_length r =
     (case r of
        Inl e \<Rightarrow> None
      | Inr p \<Rightarrow> (case get_prop p ''path'' of Some (JArr nodes) \<Rightarrow> Some (length nodes) | _ \<Rightarrow> None))"

text \<open>
  A level whose combined pairs are all digested as they are: no concatenation that
  \<^verbatim>\<open>buildTree\<close> hands to \<^verbatim>\<open>hash\<close> on this level is valid JSON text (which \<^verbatim>\<open>hash\<close>
  would re-render before digesting, and \<^verbatim>\<open>verifyProof\<close> would not).
\<close>

fun plain_level :: "string list \<Rightarrow> bool" where
  "plain_level (left # right # rest) = (JSON_parse (left @ right) = None \<and> plain_level rest)"
| "plain_level [lst] = (JSON_parse (lst @ lst) = None)"
| "plain_level [] = True"

text \<open>
  Two values that differ only in the order of the keys of their objects, at any depth.
\<close>

inductive same_up_to_key_order :: "json \<Rightarrow> json \<Rightarrow> bool" where
  same_refl: "same_up_to_key_order j j"
| same_arr: "list_all2 same_up_to_key_order xs ys \<Longrightarrow> same_up_to_key_order (JArr xs) (JArr ys)"
| same_obj: "distinct (map fst kvs) \<Longrightarrow> distinct (map fst kvs') \<Longrightarrow>
     set (map fst kvs) = set (map fst kvs') \<Longrightarrow>
     (\<forall>k \<in> set (map fst kvs). same_up_to_key_order (the (map_of kvs k)) (the (map_of kvs' k))) \<Longrightarrow>
     same_up_to_key_order (JObj kvs) (JObj kvs')"

section \<open>Ledger (class \<^verbatim>\<open>Blockchain\<close>)\<close>

record block =
  index :: nat
  timestamp :: nat
  transactions :: "json list"
  previousHash :: string
  nonce :: nat
  hash :: string
  merkleRoot :: string

record blockchain =
  chain :: "block list"
  pendingTransactions :: "json list"

text \<open>The constant \<^verbatim>\<open>this.difficulty = 2\<close> of the constructor.\<close>

definition difficulty :: nat where
  "difficulty = 2"

text \<open>
  \<^verbatim>\<open>calculateHash(...args)\<close>: an argument of type object is rendered by
  \<^verbatim>\<open>JSON.stringify\<close>, any other by \<^verbatim>\<open>String\<close>; the renderings are joined
  without a separator and digested.
\<close>

fun arg_string :: "json \<Rightarrow> string" where
  "arg_string (JStr s) = s"
| "arg_string j = stringify j"

definition calculateHash :: "json list \<Rightarrow> string" where
  "calculateHash args = sha256 (concat (map arg_string args))"

definition block_args :: "block \<Rightarrow> json list" where
  "block_args b = [JNum (int (index b)), JNum (int (timestamp b)), JArr (transactions b),
                   JStr (previousHash b), JNum (int (nonce b)), JStr (merkleRoot b)]"

definition calculateBlockHash :: "block \<Rightarrow> string" where
  "calculateBlockHash b = calculateHash (block_args b)"

text \<open>The body of the \<^verbatim>\<open>for\<close> loop of \<^verbatim>\<open>calculateMerkleRoot\<close>: one level of the tree.\<close>

fun merkle_level :: "string list \<Rightarrow> string list" where
  "merkle_level (x # y # rest) = calculateHash [JStr (x @ y)] # merkle_level rest"
| "merkle_level [x] = [x]"
| "merkle_level [] = []"

lemma length_merkle_level: "length (merkle_level t) = (length t + 1) div 2"
  by (induction t rule: merkle_level.induct) simp_all

text \<open>The \<^verbatim>\<open>while (tree.length > 1)\<close> loop, and \<^verbatim>\<open>tree[0]\<close> after it.\<close>

function merkle_while :: "string list \<Rightarrow> string list" where
  "merkle_while t = (if length t > 1 then merkle_while (merkle_level t) else t)"
  by pat_completeness auto
termination
  by (relation "measure length") (auto simp: length_merkle_level)

declare merkle_while.simps [simp del]

definition calculateMerkleRoot :: "json list \<Rightarrow> string" where
  "calculateMerkleRoot txs =
     (if length txs = 0 then sha256 ''''
      else if length txs = 1 then calculateHash [txs ! 0]
      else hd (merkle_while (map (\<lambda>tx. calculateHash [tx]) txs)))"

text \<open>
  \<^verbatim>\<open>createGenesisBlock()\<close>. \<^verbatim>\<open>Date.now()\<close> is read twice, for the timestamp and
  inside the hash; the two readings are the parameters.
\<close>

definition createGenesisBlock :: "nat \<Rightarrow> nat \<Rightarrow> blockchain \<Rightarrow> block \<times> blockchain" where
  "createGenesisBlock now1 now2 bc =
     (if length (chain bc) > 0 then (chain bc ! 0, bc)
      else
        let genesisBlock =
              \<lparr>index = 0, timestamp = now1, transactions = [], previousHash = ''0'',
               nonce = 0,
               hash = calculateHash [JNum 0, JNum (int now2), JArr [], JStr ''0''],
               merkleRoot = calculateMerkleRoot []\<rparr>
        in (genesisBlock, bc\<lparr>chain := chain bc @ [genesisBlock]\<rparr>))"

text \<open>
  \<^verbatim>\<open>block.nonce++\<close> on a double: beyond \<open>2^53\<close> the increment is lost to rounding.
\<close>

definition nonce_incr :: "nat \<Rightarrow> nat" where
  "nonce_incr n = (if n < 9007199254740992 then n + 1 else n)"

text \<open>\<^verbatim>\<open>hash.substring(0, this.difficulty) !== target\<close>, negated.\<close>

definition meets_target :: "string \<Rightarrow> bool" where
  "meets_target h = (take difficulty h = replicate difficulty (CHR ''0''))"

text \<open>
  \<^verbatim>\<open>proofOfWork(block)\<close>: the loop has no bound, so not returning is \<open>None\<close>. The
  result is the block with the nonce found, and its hash.
\<close>

partial_function (option) proofOfWork :: "block \<Rightarrow> (block \<times> string) option" where
  "proofOfWork b =
     (if meets_target (calculateBlockHash b) then Some (b, calculateBlockHash b)
      else proofOfWork (b\<lparr>nonce := nonce_incr (nonce b)\<rparr>))"

text \<open>
  \<^verbatim>\<open>minePendingTransactions()\<close> at time \<open>now\<close>; \<open>candidate_block\<close> is the block
  literal it starts from (\<^verbatim>\<open>hash\<close> is not set yet). With an empty chain
  \<^verbatim>\<open>this.getLatestBlock()\<close> is \<^verbatim>\<open>undefined\<close> and reading its \<^verbatim>\<open>hash\<close> throws.
\<close>

definition candidate_block :: "nat \<Rightarrow> blockchain \<Rightarrow> block" where
  "candidate_block now bc =
     \<lparr>index = length (chain bc), timestamp = now,
      transactions = pendingTransactions bc,
      previousHash = hash (last (chain bc)), nonce = 0, hash = [],
      merkleRoot = calculateMerkleRoot (pendingTransactions bc)\<rparr>"

definition minePendingTransactions :: "nat \<Rightarrow> blockchain \<Rightarrow> (error + block \<times> blockchain) option" where
  "minePendingTransactions now bc =
     (if length (pendingTransactions bc) = 0 then Some (Inl EmptyInput)
      else if chain bc = [] then Some (Inl TypeError)
      else
        (case proofOfWork (candidate_block now bc) of
           None \<Rightarrow> None
         | Some (b, h) \<Rightarrow>
             Some (Inr (b\<lparr>hash := h\<rparr>,
                        bc\<lparr>chain := chain bc @ [b\<lparr>hash := h\<rparr>], pendingTransactions := []\<rparr>))))"

text \<open>The body of the \<^verbatim>\<open>for\<close> loop of \<^verbatim>\<open>isChainValid\<close>, from block \<open>i\<close> on.\<close>

fun chain_valid_from :: "block \<Rightarrow> block list \<Rightarrow> bool" where
  "chain_valid_from previousBlock [] = True"
| "chain_valid_from previousBlock (currentBlock # rest) =
     (if hash currentBlock \<noteq> calculateBlockHash currentBlock then False
      else if previousHash currentBlock \<noteq> hash previousBlock then False
      else if merkleRoot currentBlock \<noteq> calculateMerkleRoot (transactions currentBlock) then False
      else chain_valid_from currentBlock rest)"

definition isChainValid :: "blockchain \<Rightarrow> bool" where
  "isChainValid bc = (case chain bc of [] \<Rightarrow> True | g # rest \<Rightarrow> chain_valid_from g rest)"

text \<open>
  Replacing transaction \<open>j\<close> of block \<open>i\<close> and storing the recomputed block hash:
  \<^verbatim>\<open>chain[i].transactions[j] = tx; chain[i].hash = calculateBlockHash(chain[i])\<close>.
\<close>

definition tamper :: "blockchain \<Rightarrow> nat \<Rightarrow> nat \<Rightarrow> json \<Rightarrow> blockchain" where
  "tamper bc i j tx =
     (let b = (chain bc ! i)\<lparr>transactions := (transactions (chain bc ! i))[j := tx]\<rparr>
      in bc\<lparr>chain := (chain bc)[i := b\<lparr>hash := calculateBlockHash b\<rparr>]\<rparr>)"

text \<open>
  The texts digested while \<^verbatim>\<open>calculateMerkleRoot\<close> runs: the rendering of every
  transaction, and every concatenation of a pair on every level.
\<close>

fun level_inputs :: "string list \<Rightarrow> string list" where
  "level_inputs (x # y # rest) = (x @ y) # level_inputs rest"
| "level_inputs _ = []"

function while_inputs :: "string list \<Rightarrow> string list" where
  "while_inputs t = (if length t > 1 then level_inputs t @ while_inputs (merkle_level t) else [])"
  by pat_completeness auto
termination
  by (relation "measure length") (auto simp: length_merkle_level)

declare while_inputs.simps [simp del]

definition hashed_inputs :: "json list \<Rightarrow> string list" where
  "hashed_inputs txs =
     map arg_string txs @ while_inputs (map (\<lambda>tx. calculateHash [tx]) txs)"

section \<open>An example ledger\<close>

text \<open>
  A ledger with its genesis block and one pending transaction, the block mined from it at
  time 195 (where the first nonce already meets the target), and a tampered copy of the
  transaction.
\<close>

definition demo_tx :: json where
  "demo_tx = JObj [(''from'', JStr ''a''), (''to'', JStr ''b''), (''data'', JStr ''c''),
                   (''timestamp'', JNum 2), (''id'', JStr ''x'')]"

definition demo_genesis :: block where
  "demo_genesis = fst (createGenesisBlock 1 1 \<lparr>chain = [], pendingTransactions = []\<rparr>)"

definition demo_ledger :: blockchain where
  "demo_ledger = \<lparr>chain = [demo_genesis], pendingTransactions = [demo_tx]\<rparr>"

definition demo_block :: block where
  "demo_block = \<lparr>index = 1, timestamp = 195, transactions = [demo_tx],
      previousHash = ''37e5516d0727bf094e1dc06885c049db12c20af18919d86b1e343a79ae85dce0'', nonce = 0, hash = ''00affc9cc3ea64864a1e40264bf92f77d31c5f68a9ba92669e99f18ab416de82'', merkleRoot = ''de7e861ee9469c24e3ce145c0498effc44d46188509b21d499f967c74ff48818''\<rparr>"

definition demo_tx_tampered :: json where
  "demo_tx_tampered = JObj [(''from'', JStr ''a''), (''to'', JStr ''b''), (''data'', JStr ''z''),
                            (''timestamp'', JNum 2), (''id'', JStr ''x'')]"

definition demo_mined :: blockchain where
  "demo_mined = \<lparr>chain = [demo_genesis, demo_block], pendingTransactions = []\<rparr>"

text \<open>The same object written with its two keys in either order.\<close>

definition reordered_a :: json where
  "reordered_a = JObj [(''a'', JNum 1), (''b'', JNum 2)]"

definition reordered_b :: json where
  "reordered_b = JObj [(''b'', JNum 2), (''a'', JNum 1)]"

section \<open>Node registry (class \<^verbatim>\<open>NodeManager\<close>)\<close>

text \<open>The \<^verbatim>\<open>Set\<close> of peers is the list of its members, without repetition.\<close>

record node_manager =
  nodeId :: string
  networkNodes :: "string list"

definition getNodeCount :: "node_manager \<Rightarrow> nat" where
  "getNodeCount nm = length (networkNodes nm) + 1"

section \<open>Quorum arithmetic\<close>

text \<open>
  \<^verbatim>\<open>yesVotes / nodeCount >= this.consensusThreshold\<close> is a comparison of two doubles: the
  quotient rounded to the nearest double (ties to even), and the double nearest to the
  literal \<^verbatim>\<open>0.67\<close>. A positive double is a pair \<open>(m, e)\<close> of its value \<open>m / 2^e\<close>, with a
  53-bit \<open>m\<close>; \<open>dscale y n\<close> is the \<open>e\<close> that brings \<open>y / n\<close> to 53 bits.
\<close>

function dscale :: "nat \<Rightarrow> nat \<Rightarrow> nat" where
  "dscale y n = (if y = 0 \<or> n = 0 \<or> n * 2 ^ 52 \<le> y then 0 else Suc (dscale (2 * y) n))"
  by pat_completeness auto
termination
  by (relation "measure (\<lambda>(y, n). n * 2 ^ 52 - y)") auto

declare dscale.simps [simp del]

definition round_half_even :: "nat \<Rightarrow> nat \<Rightarrow> nat" where
  "round_half_even a b =
     (if 2 * (a mod b) < b then a div b
      else if b < 2 * (a mod b) then a div b + 1
      else if even (a div b) then a div b
      else a div b + 1)"

definition double_div :: "nat \<Rightarrow> nat \<Rightarrow> nat \<times> nat" where
  "double_div y n = (round_half_even (y * 2 ^ dscale y n) n, dscale y n)"

definition double_ge :: "nat \<times> nat \<Rightarrow> nat \<times> nat \<Rightarrow> bool" where
  "double_ge a b = (fst b * 2 ^ snd a \<le> fst a * 2 ^ snd b)"

text \<open>\<^verbatim>\<open>this.consensusThreshold = 0.67\<close>\<close>

definition consensusThreshold :: "nat \<times> nat" where
  "consensusThreshold = double_div 67 100"

definition consensus_reached :: "nat \<Rightarrow> nat \<Rightarrow> bool" where
  "consensus_reached yesVotes nodeCount =
     double_ge (double_div yesVotes nodeCount) consensusThreshold"

section \<open>Consensus engine (class \<^verbatim>\<open>ConsensusEngine\<close>)\<close>

record vote =
  v_nodeId :: string
  v_blockHash :: string
  v_isValid :: bool
  v_timestamp :: nat
  v_signature :: string

text \<open>An entry of \<^verbatim>\<open>pendingValidations\<close>.\<close>

record validation =
  proposal :: block
  entry_votes :: "vote list"
  createdAt :: nat

text \<open>
  \<^verbatim>\<open>votes\<close> maps a proposal hash to the \<^verbatim>\<open>Map\<close> from node id to vote, here the list
  of its entries in insertion order.
\<close>

record consensus_engine =
  ledger :: blockchain
  nodeManager :: node_manager
  pendingValidations :: "string \<rightharpoonup> validation"
  votes :: "string \<rightharpoonup> (string \<times> vote) list"

text \<open>
  \<^verbatim>\<open>isValidTransaction\<close>: \<^verbatim>\<open>transaction.from && transaction.to && transaction.data\<close>,
  read for its truth value; on \<^verbatim>\<open>null\<close> the property access throws.
\<close>

definition isValidTransaction :: "json \<Rightarrow> error + bool" where
  "isValidTransaction tx =
     (if tx = JNull then Inl TypeError
      else Inr (truthy_opt (get_prop tx ''from'') \<and> truthy_opt (get_prop tx ''to'')
                \<and> truthy_opt (get_prop tx ''data'')))"


text \<open>The loop \<^verbatim>\<open>for (const tx of ...) if (!isValidTransaction(tx)) ...\<close>.\<close>

fun all_valid :: "json list \<Rightarrow> error + bool" where
  "all_valid [] = Inr True"
| "all_valid (tx # txs) =
     (case isValidTransaction tx of
        Inl e \<Rightarrow> Inl e
      | Inr ok \<Rightarrow> if ok then all_valid txs else Inr False)"

text \<open>
  \<^verbatim>\<open>validateBlockProposal\<close>. A stored proposal has every field; the falsy ones are the
  timestamp 0 and the empty strings. With an empty chain, reading the latest block's hash
  throws. For an index below the chain length both paths of the code return \<^verbatim>\<open>true\<close>.
\<close>

definition validateBlockProposal :: "blockchain \<Rightarrow> block \<Rightarrow> error + bool" where
  "validateBlockProposal bc p =
     (if timestamp p = 0 \<or> previousHash p = [] \<or> hash p = [] \<or> merkleRoot p = [] then Inr False
      else
        (case all_valid (transactions p) of
           Inl e \<Rightarrow> Inl e
         | Inr ok \<Rightarrow>
             if \<not> ok then Inr False
             else if merkleRoot p \<noteq> calculateMerkleRoot (transactions p) then Inr False
             else if length (chain bc) \<le> index p then
               (if chain bc = [] then Inl TypeError
                else if previousHash p \<noteq> hash (last (chain bc)) then Inr False
                else Inr True)
             else Inr True))"

text \<open>\<^verbatim>\<open>signVote\<close>: the digest of \<^verbatim>\<open>`${blockHash}:${isValid}:${nodeId}`\<close>.\<close>

definition signVote :: "string \<Rightarrow> bool \<Rightarrow> string \<Rightarrow> string" where
  "signVote blockHash isValid nid =
     sha256 (blockHash @ '':'' @ (if isValid then ''true'' else ''false'') @ '':'' @ nid)"

text \<open>\<^verbatim>\<open>Array.from(votesMap.values()).filter(v => v.isValid).length\<close>\<close>

definition yes_votes :: "(string \<times> vote) list \<Rightarrow> nat" where
  "yes_votes votesMap = length (filter (\<lambda>(n, v). v_isValid v) votesMap)"

text \<open>The vote literal of \<^verbatim>\<open>voteOnBlock\<close>, created at time \<open>now\<close>.\<close>

definition make_vote :: "nat \<Rightarrow> string \<Rightarrow> bool \<Rightarrow> string \<Rightarrow> vote" where
  "make_vote now blockHash isValid nid =
     \<lparr>v_nodeId = nid, v_blockHash = blockHash, v_isValid = isValid, v_timestamp = now,
      v_signature = signVote blockHash isValid nid\<rparr>"

record vote_result =
  vr_vote :: vote
  vr_consensusReached :: bool
  vr_block :: "block option"
  vr_totalVotes :: nat
  vr_yesVotes :: nat
  vr_totalNodes :: nat

text \<open>
  \<^verbatim>\<open>voteOnBlock(blockHash, isValid)\<close>, with the vote cast at time \<open>now\<close> and the mining it
  may trigger at time \<open>mineNow\<close>. \<open>None\<close> is a nonce search that does not end. Whatever is
  thrown inside the \<^verbatim>\<open>try\<close> block is caught, and the function returns the plain result.
\<close>

definition voteOnBlock ::
  "nat \<Rightarrow> nat \<Rightarrow> string \<Rightarrow> bool \<Rightarrow> consensus_engine \<Rightarrow> (error + vote_result \<times> consensus_engine) option"
where
  "voteOnBlock now mineNow blockHash isValid st =
     (if blockHash = [] then Some (Inl HashRequired)
      else
        (case pendingValidations st blockHash of
           None \<Rightarrow> Some (Inl NotFound)
         | Some entry \<Rightarrow>
             (case votes st blockHash of
                None \<Rightarrow> Some (Inl TypeError)
              | Some votesMap \<Rightarrow>
                  if nodeId (nodeManager st) \<in> set (map fst votesMap) then Some (Inl DuplicateVote)
                  else
                    (case (if isValid then validateBlockProposal (ledger st) (proposal entry)
                           else Inr True) of
                       Inl e \<Rightarrow> Some (Inl e)
                     | Inr ok \<Rightarrow>
                         if \<not> ok then Some (Inl InvalidVote)
                         else
                           let vt = make_vote now blockHash isValid (nodeId (nodeManager st));
                               votesMap' = votesMap @ [(nodeId (nodeManager st), vt)];
                               st1 = st\<lparr>votes := (votes st)(blockHash \<mapsto> votesMap'),
                                        pendingValidations := (pendingValidations st)
                                          (blockHash \<mapsto> entry\<lparr>entry_votes := entry_votes entry @ [vt]\<rparr>)\<rparr>;
                               nodeCount = getNodeCount (nodeManager st);
                               res = \<lparr>vr_vote = vt,
                                      vr_consensusReached = consensus_reached (yes_votes votesMap') nodeCount,
                                      vr_block = None, vr_totalVotes = length votesMap',
                                      vr_yesVotes = yes_votes votesMap', vr_totalNodes = nodeCount\<rparr>
                           in if consensus_reached (yes_votes votesMap') nodeCount \<and> isValid then
                                (case validateBlockProposal (ledger st1) (proposal entry) of
                                   Inl e \<Rightarrow> Some (Inr (res, st1))
                                 | Inr ok' \<Rightarrow>
                                     if ok' then
                                       (case minePendingTransactions mineNow (ledger st1) of
                                          None \<Rightarrow> None
                                        | Some (Inl e) \<Rightarrow> Some (Inr (res, st1))
                                        | Some (Inr (minedBlock, bc')) \<Rightarrow>
                                            Some (Inr (res\<lparr>vr_consensusReached := True,
                                                           vr_block := Some minedBlock\<rparr>,
                                                       st1\<lparr>ledger := bc'\<rparr>)))
                                     else Some (Inr (res, st1)))
                              else Some (Inr (res, st1))))))"



text \<open>
  Strict equality \<^verbatim>\<open>===\<close> of two property reads: two missing properties are equal,
  primitive values are compared by value (a number literal with a fraction or an exponent
  by its text), and two arrays or objects of parsed input are never the same reference.
\<close>

fun strict_eq :: "json option \<Rightarrow> json option \<Rightarrow> bool" where
  "strict_eq None None = True"
| "strict_eq (Some JNull) (Some JNull) = True"
| "strict_eq (Some (JBool a)) (Some (JBool b)) = (a = b)"
| "strict_eq (Some (JNum a)) (Some (JNum b)) = (a = b)"
| "strict_eq (Some (JNumLit a)) (Some (JNumLit b)) = (a = b)"
| "strict_eq (Some (JStr a)) (Some (JStr b)) = (a = b)"
| "strict_eq _ _ = False"





text \<open>The block literal of \<^verbatim>\<open>proposeBlock\<close> with its hash, computed without a nonce search.\<close>

definition block_proposal :: "nat \<Rightarrow> json list \<Rightarrow> blockchain \<Rightarrow> block" where
  "block_proposal now pendingTxs bc =
     (let p = \<lparr>index = length (chain bc), timestamp = now, transactions = pendingTxs,
               previousHash = hash (last (chain bc)), nonce = 0, hash = [],
               merkleRoot = calculateMerkleRoot pendingTxs\<rparr>
      in p\<lparr>hash := calculateBlockHash p\<rparr>)"



subsection \<open>Chain synchronisation\<close>

text \<open>\<^verbatim>\<open>v.length\<close> of a value that is not \<^verbatim>\<open>null\<close>.\<close>

fun js_length :: "json \<Rightarrow> json option" where
  "js_length (JStr s) = Some (JNum (int (length s)))"
| "js_length (JArr xs) = Some (JNum (int (length xs)))"
| "js_length (JObj kvs) = map_of kvs ''length''"
| "js_length _ = None"

text \<open>
  The loop of \<^verbatim>\<open>validateChain\<close> from block 1 on: the link to the previous block, and a
  hash that is present and of length 64. No hash is recomputed. Reading a property of a
  block that is \<^verbatim>\<open>null\<close> throws.
\<close>

fun validate_links :: "json \<Rightarrow> json list \<Rightarrow> error + bool" where
  "validate_links previousBlock [] = Inr True"
| "validate_links previousBlock (currentBlock # rest) =
     (if currentBlock = JNull then Inl TypeError
      else if strict_eq (get_prop currentBlock ''previousHash'') (get_prop previousBlock ''hash'')
      then
        (case get_prop currentBlock ''hash'' of
           None \<Rightarrow> Inr False
         | Some h \<Rightarrow>
             if truthy h \<and> strict_eq (js_length h) (Some (JNum 64))
             then validate_links currentBlock rest
             else Inr False)
      else Inr False)"

definition validateChain :: "json \<Rightarrow> error + bool" where
  "validateChain c =
     (case c of
        JArr blks \<Rightarrow>
          (case blks of
             [] \<Rightarrow> Inr False
           | genesis # rest \<Rightarrow>
               if genesis = JNull then Inl TypeError
               else if strict_eq (get_prop genesis ''index'') (Some (JNum 0))
                       \<and> truthy_opt (get_prop genesis ''hash'')
               then validate_links genesis rest
               else Inr False)
      | _ \<Rightarrow> Inr False)"

text \<open>
  The \<^verbatim>\<open>for (const chain of networkChains)\<close> loop of \<^verbatim>\<open>syncChain\<close> on the variables
  \<^verbatim>\<open>longestChain\<close> (\<open>None\<close> while it is the local chain), \<^verbatim>\<open>longestLength\<close> and
  \<^verbatim>\<open>foundInvalidChain\<close>. An entry that is not an array is skipped.
\<close>

fun sync_loop :: "json list \<Rightarrow> json option \<times> nat \<times> bool \<Rightarrow> error + json option \<times> nat \<times> bool" where
  "sync_loop [] s = Inr s"
| "sync_loop (c # cs) (longestChain, longestLength, foundInvalidChain) =
     (case c of
        JArr blks \<Rightarrow>
          (case validateChain c of
             Inl e \<Rightarrow> Inl e
           | Inr isValid \<Rightarrow>
               if \<not> isValid then
                 sync_loop cs (longestChain,
                               (if length blks > longestLength then length blks else longestLength),
                               True)
               else if length blks > longestLength
                 then sync_loop cs (Some c, length blks, foundInvalidChain)
                 else sync_loop cs (longestChain, longestLength, foundInvalidChain))
      | _ \<Rightarrow> sync_loop cs (longestChain, longestLength, foundInvalidChain))"

record sync_result =
  sr_success :: bool
  sr_synced :: bool
  sr_localChainLength :: nat
  sr_newChainLength :: "nat option"
  sr_chainReplaced :: "bool option"
  sr_chainValid :: bool
  sr_message :: string

text \<open>The three \<^verbatim>\<open>return\<close> statements after the loop.\<close>

definition sync_report :: "nat \<Rightarrow> nat \<Rightarrow> bool \<Rightarrow> sync_result" where
  "sync_report localChainLength longestLength foundInvalidChain =
     (if foundInvalidChain \<and> longestLength > localChainLength then
        \<lparr>sr_success = False, sr_synced = False, sr_localChainLength = localChainLength,
         sr_newChainLength = None, sr_chainReplaced = None, sr_chainValid = False,
         sr_message = ''Invalid chain provided''\<rparr>
      else if longestLength > localChainLength \<and> \<not> foundInvalidChain then
        \<lparr>sr_success = True, sr_synced = True, sr_localChainLength = localChainLength,
         sr_newChainLength = Some longestLength, sr_chainReplaced = Some True,
         sr_chainValid = True,
         sr_message = ''Chain synchronized: '' @ show_nat longestLength @ '' blocks''\<rparr>
      else
        \<lparr>sr_success = True, sr_synced = True, sr_localChainLength = localChainLength,
         sr_newChainLength = None, sr_chainReplaced = Some False,
         sr_chainValid = (\<not> foundInvalidChain),
         sr_message = ''Local chain is up to date''\<rparr>)"

text \<open>
  \<^verbatim>\<open>syncChain(networkChains)\<close>; the argument \<^verbatim>\<open>null\<close> stands for an omitted one. The
  engine is returned with the result: no statement of the function assigns to it. A string
  is iterated character by character, and no character is an array; any other value that
  is not an array cannot be iterated.
\<close>

definition syncChain :: "consensus_engine \<Rightarrow> json \<Rightarrow> error + sync_result \<times> consensus_engine" where
  "syncChain st networkChains =
     (let localChainLength = length (chain (ledger st))
      in if truthy networkChains \<and> networkChains \<noteq> JArr [] then
           (case (case networkChains of
                    JArr cs \<Rightarrow> sync_loop cs (None, localChainLength, False)
                  | JStr s \<Rightarrow> Inr (None, localChainLength, False)
                  | _ \<Rightarrow> Inl TypeError) of
              Inl e \<Rightarrow> Inl e
            | Inr (longestChain, longestLength, foundInvalidChain) \<Rightarrow>
                Inr (sync_report localChainLength longestLength foundInvalidChain, st))
         else
           Inr (\<lparr>sr_success = True, sr_synced = True, sr_localChainLength = localChainLength,
                 sr_newChainLength = None, sr_chainReplaced = None,
                 sr_chainValid = isChainValid (ledger st),
                 sr_message = ''Chain synchronized (simulated)''\<rparr>, st))"

section \<open>An example engine\<close>

text \<open>
  An engine of node \<^verbatim>\<open>n1\<close> in a network of three nodes, on the example ledger, with no
  proposal yet; and two candidate chains for synchronisation: one of three blocks that
  passes \<^verbatim>\<open>validateChain\<close>, and one of a single block without a hash that fails it.
\<close>

definition demo_engine :: consensus_engine where
  "demo_engine = \<lparr>ledger = demo_ledger,
                   nodeManager = \<lparr>nodeId = ''n1'', networkNodes = [''n2'', ''n3'']\<rparr>,
                   pendingValidations = Map.empty, votes = Map.empty\<rparr>"

definition good_chain :: json where
  "good_chain = JArr
     [JObj [(''index'', JNum 0), (''hash'', JStr ''g'')],
      JObj [(''index'', JNum 1), (''previousHash'', JStr ''g''),
            (''hash'', JStr (replicate 64 (CHR ''a'')))],
      JObj [(''index'', JNum 2), (''previousHash'', JStr (replicate 64 (CHR ''a''))),
            (''hash'', JStr (replicate 64 (CHR ''b'')))]]"

definition bad_chain :: json where
  "bad_chain = JArr [JObj [(''index'', JNum 0)]]"

text \<open>
  The engine after a proposal over the pending transaction has been registered at time 5,
  before any vote; the same with a yes vote of \<^verbatim>\<open>n2\<close>, and with yes votes of \<^verbatim>\<open>n1\<close> and
  \<^verbatim>\<open>n2\<close>.
\<close>

definition demo_proposal :: block where
  "demo_proposal = block_proposal 5 [demo_tx] demo_ledger"

definition demo_voting :: consensus_engine where
  "demo_voting = demo_engine
     \<lparr>pendingValidations :=
        [hash demo_proposal \<mapsto> \<lparr>proposal = demo_proposal, entry_votes = [], createdAt = 5\<rparr>],
      votes := [hash demo_proposal \<mapsto> []]\<rparr>"


definition demo_two_yes :: consensus_engine where
  "demo_two_yes = demo_voting
     \<lparr>votes := [hash demo_proposal \<mapsto>
                  [(''n1'', make_vote 6 (hash demo_proposal) True ''n1''),
                   (''n2'', make_vote 6 (hash demo_proposal) True ''n2'')]]\<rparr>"

text \<open>
  A network of the single node \<^verbatim>\<open>n1\<close> whose ledger has already mined the pending
  transaction into the example block, while the proposal of that block is still registered
  and not yet voted on.
\<close>

definition demo_solo :: consensus_engine where
  "demo_solo = \<lparr>ledger = demo_mined,
                 nodeManager = \<lparr>nodeId = ''n1'', networkNodes = []\<rparr>,
                 pendingValidations =
                   [hash demo_block \<mapsto> \<lparr>proposal = demo_block, entry_votes = [], createdAt = 5\<rparr>],
                 votes = [hash demo_block \<mapsto> []]\<rparr>"

text \<open>The engine with a registered proposal whose timestamp is 0, which does not validate.\<close>

definition demo_unstamped :: consensus_engine where
  "demo_unstamped = demo_voting
     \<lparr>pendingValidations :=
        [hash demo_proposal \<mapsto> \<lparr>proposal = demo_proposal\<lparr>timestamp := 0\<rparr>,
                                  entry_votes = [], createdAt = 5\<rparr>]\<rparr>"

section \<open>Facts about the digest and the parser\<close>

lemma hexdigit_lower: "n < 16 \<Longrightarrow> to_lower_char (hexdigit n) = hexdigit n"
proof -
  assume n: "n < 16"
  have "list_all (\<lambda>c. to_lower_char c = c) ''0123456789abcdef''"
    by (simp add: to_lower_char_def)
  with n show ?thesis
    unfolding hexdigit_def by (simp only: list_all_length) simp
qed

lemma length_round_step: "length (round_step k w st) = length st"
  by (cases "(k, w, st)" rule: round_step.cases) (simp_all add: mk_state_def)

lemma length_rounds: "length (rounds ks win st) = length st"
  by (induction ks win st rule: rounds.induct) (simp_all add: length_round_step)

lemma length_compress: "length (compress hs blk) = length hs"
  by (simp add: compress_def length_rounds)

lemma length_foldl_compress: "length (foldl compress hs blks) = length hs"
  by (induction blks arbitrary: hs) (simp_all add: length_compress)

lemma length_concat_hex32: "length (concat (map hex32 ws)) = 8 * length ws"
  by (induction ws) (simp_all add: hex32_def)

lemma length_sha256: "length (sha256 s) = 64"
  by (simp add: sha256_def length_concat_hex32 length_foldl_compress H0_def)

lemma hex32_lower: "toLowerCase (hex32 w) = hex32 w"
  by (simp add: toLowerCase_def hex32_def hexdigit_lower)

lemma toLowerCase_concat: "toLowerCase (concat xss) = concat (map toLowerCase xss)"
  by (induction xss) (simp_all add: toLowerCase_def)

lemma toLowerCase_sha256: "toLowerCase (sha256 s) = sha256 s"
  by (simp add: sha256_def toLowerCase_concat hex32_lower comp_def)

text \<open>The equations that evaluate the parser on a given text.\<close>

lemmas parse_eval = JSON_parse_def skip_ws_def is_ws_def parse_number_def is_digit_def
  unescape_def parse_value.simps parse_elems.simps parse_members.simps is_hex_char_def
  hex_val_def utf8_def

lemma MerkleTree_hash_sha: "\<exists>x. MerkleTree_hash d = sha256 x"
  by (auto simp: MerkleTree_hash_def split: json.splits option.splits)

lemma length_MerkleTree_hash: "length (MerkleTree_hash d) = 64"
  using MerkleTree_hash_sha [of d] by (auto simp: length_sha256)

lemma MerkleTree_hash_nonempty: "MerkleTree_hash d \<noteq> []"
  using length_MerkleTree_hash [of d] by auto

lemma toLowerCase_MerkleTree_hash: "toLowerCase (MerkleTree_hash d) = MerkleTree_hash d"
  using MerkleTree_hash_sha [of d] by (auto simp: toLowerCase_sha256)

lemma findIndex_mem:
  "x \<in> set xs \<Longrightarrow> \<exists>i. findIndex (\<lambda>h. h = x) xs = Some i \<and> i < length xs \<and> xs ! i = x"
  by (induction xs) auto

lemma length_proof_path: "length (proof_path lvls i) = length lvls - 1"
  by (induction lvls i rule: proof_path.induct) (simp_all add: Let_def)

lemma sha256_nonempty: "sha256 s \<noteq> []" "[] \<noteq> sha256 s"
  using length_sha256 [of s] by auto

lemma verify_path_result:
  "verify_path ns c = Inr r \<Longrightarrow> r = c \<or> (\<exists>x. r = sha256 x)"
  by (induction ns arbitrary: c)
     (auto simp: Let_def split: option.splits json.splits if_splits)

lemma verify_path_nonempty: "c \<noteq> [] \<Longrightarrow> verify_path ns c = Inr r \<Longrightarrow> r \<noteq> []"
  using verify_path_result [of ns c r] by (auto simp: sha256_nonempty)

lemma build_levels_1: "build_levels [a] = [[a]]"
  by (subst build_levels.simps) simp

lemma build_levels_2: "build_levels [a, b] = [[a, b], [MerkleTree_hash (JStr (a @ b))]]"
  by (subst build_levels.simps) (simp add: build_levels_1)

text \<open>Evaluating the digest on a given text.\<close>

lemma replicate_unfold: "replicate n x = (if n = 0 then [] else x # replicate (n - 1) x)"
  by (cases n) simp_all

lemmas sha_eval = sha256_def pad_def be_bytes8_def compress_def H0_def K256_def hex32_def
  hexdigit_def add32_def rotr_def shr_def bsig0_def bsig1_def ssig0_def ssig1_def ch_def maj_def
  mk_state_def replicate_unfold

text \<open>Digests used below, computed by the definition.\<close>

lemma sha256_a64: "sha256 ''aaaaaaaaaaaaaaaaaaaaaaaaaaaaaaaaaaaaaaaaaaaaaaaaaaaaaaaaaaaaaaaa'' = ''ffe054fe7ae0cb6dc65c3af9b61d5209f439851db43d0ba5997337df154668eb''"
  by (simp add: sha_eval)

lemma sha256_record1: "sha256 ''record1'' = ''ed003a8f4ae177a3f31344e910a5320c2ece572f8b7860142d7b7c138a2fa850''"
  by (simp add: sha_eval)

lemma sha256_record2: "sha256 ''record2'' = ''9204d2298aa78febd1c83e49fc2dd9eee405ecae9fff13fc8f7a4c8c6807f02b''"
  by (simp add: sha_eval)

lemma hash_record1: "MerkleTree_hash (JStr ''record1'') = sha256 ''record1''"
  by (simp add: MerkleTree_hash_def parse_eval)
lemma hash_record2: "MerkleTree_hash (JStr ''record2'') = sha256 ''record2''"
  by (simp add: MerkleTree_hash_def parse_eval)
lemma hash_record3: "MerkleTree_hash (JStr ''record3'') = sha256 ''record3''"
  by (simp add: MerkleTree_hash_def parse_eval)

lemma build_levels_3:
  "build_levels [a, b, c] =
     [[a, b, c],
      [MerkleTree_hash (JStr (a @ b)), MerkleTree_hash (JStr (c @ c))],
      [MerkleTree_hash (JStr (MerkleTree_hash (JStr (a @ b)) @ MerkleTree_hash (JStr (c @ c))))]]"
  by (subst build_levels.simps, simp, subst build_levels.simps, simp, subst build_levels.simps, simp)

section \<open>Evaluating the example ledger\<close>

lemmas stringify_eval = quote_def escape_char_def show_int_def show_nat.simps digit_char_def

lemma sha256_empty: "sha256 [] = ''e3b0c44298fc1c149afbf4c8996fb92427ae41e4649b934ca495991b7852b855''"
  by (simp add: sha_eval)

lemma sha256_genesis: "sha256 ''01[]0'' = ''37e5516d0727bf094e1dc06885c049db12c20af18919d86b1e343a79ae85dce0''"
  by (simp add: sha_eval)

lemma sha256_demo_tx: "sha256 ''{\"from\":\"a\",\"to\":\"b\",\"data\":\"c\",\"timestamp\":2,\"id\":\"x\"}'' = ''de7e861ee9469c24e3ce145c0498effc44d46188509b21d499f967c74ff48818''"
  by (simp add: sha_eval)

lemma sha256_demo_block: "sha256 ''1195[{\"from\":\"a\",\"to\":\"b\",\"data\":\"c\",\"timestamp\":2,\"id\":\"x\"}]37e5516d0727bf094e1dc06885c049db12c20af18919d86b1e343a79ae85dce00de7e861ee9469c24e3ce145c0498effc44d46188509b21d499f967c74ff48818'' = ''00affc9cc3ea64864a1e40264bf92f77d31c5f68a9ba92669e99f18ab416de82''"
  by (simp add: sha_eval)

lemma stringify_demo_tx: "stringify demo_tx = ''{\"from\":\"a\",\"to\":\"b\",\"data\":\"c\",\"timestamp\":2,\"id\":\"x\"}''"
  by (simp add: demo_tx_def stringify_eval)

lemma demo_genesis_eq:
  "demo_genesis = \<lparr>index = 0, timestamp = 1, transactions = [], previousHash = ''0'', nonce = 0,
      hash = ''37e5516d0727bf094e1dc06885c049db12c20af18919d86b1e343a79ae85dce0'', merkleRoot = ''e3b0c44298fc1c149afbf4c8996fb92427ae41e4649b934ca495991b7852b855''\<rparr>"
  by (simp add: demo_genesis_def createGenesisBlock_def calculateHash_def calculateMerkleRoot_def
      stringify_eval sha256_genesis sha256_empty Let_def)

lemma demo_merkleRoot: "calculateMerkleRoot [demo_tx] = ''de7e861ee9469c24e3ce145c0498effc44d46188509b21d499f967c74ff48818''"
  by (simp add: calculateMerkleRoot_def calculateHash_def demo_tx_def stringify_eval sha256_demo_tx)

lemma demo_candidate:
  "candidate_block 195 demo_ledger = \<lparr>index = 1, timestamp = 195, transactions = [demo_tx],
      previousHash = ''37e5516d0727bf094e1dc06885c049db12c20af18919d86b1e343a79ae85dce0'', nonce = 0, hash = [], merkleRoot = ''de7e861ee9469c24e3ce145c0498effc44d46188509b21d499f967c74ff48818''\<rparr>"
  by (simp add: candidate_block_def demo_ledger_def demo_genesis_eq demo_merkleRoot)

lemma demo_block_hash:
  "calculateBlockHash ((candidate_block 195 demo_ledger)\<lparr>nonce := 0\<rparr>) = ''00affc9cc3ea64864a1e40264bf92f77d31c5f68a9ba92669e99f18ab416de82''"
  by (simp add: demo_candidate calculateBlockHash_def block_args_def calculateHash_def
      demo_tx_def stringify_eval sha256_demo_block)

lemma demo_meets_target:
  "meets_target (calculateBlockHash ((candidate_block 195 demo_ledger)\<lparr>nonce := 0\<rparr>))"
  by (simp add: demo_block_hash meets_target_def difficulty_def numeral_2_eq_2)

lemma demo_mine:
  "minePendingTransactions 195 demo_ledger
     = Some (Inr (demo_block, \<lparr>chain = [demo_genesis, demo_block], pendingTransactions = []\<rparr>))"
proof -
  have "proofOfWork (candidate_block 195 demo_ledger)
          = Some (candidate_block 195 demo_ledger, ''00affc9cc3ea64864a1e40264bf92f77d31c5f68a9ba92669e99f18ab416de82'')"
    using demo_meets_target demo_block_hash by (subst proofOfWork.simps) (simp add: demo_candidate)
  then show ?thesis
    by (simp add: minePendingTransactions_def demo_candidate demo_block_def)
       (simp add: demo_ledger_def)
qed

lemma sha256_demo_tx_tampered: "sha256 ''{\"from\":\"a\",\"to\":\"b\",\"data\":\"z\",\"timestamp\":2,\"id\":\"x\"}'' = ''2461adc3faf89ed9b0471c27ef521e4c33a3b883c498d28e83cd6074849eab52''"
  by (simp add: sha_eval)

lemma sha256_reordered_a: "sha256 ''{\"a\":1,\"b\":2}'' = ''43258cff783fe7036d8a43033f830adfc60ec037382473548ac742b888292777''"
  by (simp add: sha_eval)

lemma sha256_reordered_b: "sha256 ''{\"b\":2,\"a\":1}'' = ''3fb75453225c732a76b7899ea2096dda1455189c89817239732182f73fe5a09f''"
  by (simp add: sha_eval)

subsection \<open>The quorum comparison\<close>

text \<open>
  The comparison of the two doubles agrees with the comparison of the exact fractions for
  every node count up to \<open>2^49\<close>: the double nearest to \<^verbatim>\<open>0.67\<close> is
  \<open>6034823500676465 / 2^53\<close>, and a quotient below \<open>67/100\<close> with such a denominator
  rounds below it.
\<close>

lemma dscale_props:
  assumes "0 < y" "0 < n"
  shows "n * 2 ^ 52 \<le> y * 2 ^ dscale y n \<and> (dscale y n = 0 \<or> y * 2 ^ dscale y n < n * 2 ^ 53)"
  using assms
proof (induction y n rule: dscale.induct)
  case (1 y n)
  show ?case
  proof (cases "n * 2 ^ 52 \<le> y")
    case True
    then show ?thesis by (subst dscale.simps, subst dscale.simps) simp
  next
    case False
    then have d: "dscale y n = Suc (dscale (2 * y) n)"
      using "1.prems" by (subst dscale.simps) simp
    have ih: "n * 2 ^ 52 \<le> (2 * y) * 2 ^ dscale (2 * y) n
              \<and> (dscale (2 * y) n = 0 \<or> (2 * y) * 2 ^ dscale (2 * y) n < n * 2 ^ 53)"
      using "1.IH" False "1.prems" by simp
    show ?thesis
    proof (cases "dscale (2 * y) n = 0")
      case True
      with ih False show ?thesis by (simp add: d)
    next
      case False
      with ih show ?thesis by (simp add: d mult.assoc)
    qed
  qed
qed

lemma dscale_unique:
  assumes "0 < y" "0 < n" "n * 2 ^ 52 \<le> y * 2 ^ e" "e = 0 \<or> y * 2 ^ e < n * 2 ^ 53"
  shows "dscale y n = e"
proof -
  let ?d = "dscale y n"
  have p: "n * 2 ^ 52 \<le> y * 2 ^ ?d" "?d = 0 \<or> y * 2 ^ ?d < n * 2 ^ 53"
    using dscale_props [OF assms(1,2)] by simp_all
  have step: "a < b \<Longrightarrow> n * 2 ^ 52 \<le> y * 2 ^ a \<Longrightarrow> n * 2 ^ 53 \<le> y * 2 ^ b" for a b :: nat
  proof -
    assume ab: "a < b" and h: "n * 2 ^ 52 \<le> y * 2 ^ a"
    have "n * 2 ^ 53 = 2 * (n * 2 ^ 52)" by simp
    also have "\<dots> \<le> 2 * (y * 2 ^ a)" using h by simp
    also have "\<dots> = y * 2 ^ Suc a" by simp
    also have "\<dots> \<le> y * 2 ^ b"
      using ab by (intro mult_left_mono power_increasing) simp_all
    finally show ?thesis .
  qed
  show ?thesis
  proof (rule ccontr)
    assume "?d \<noteq> e"
    then consider "?d < e" | "e < ?d" by linarith
    then show False
    proof cases
      case 1
      with step [OF 1 p(1)] assms(4) show False by simp
    next
      case 2
      with step [OF 2 assms(3)] p(2) show False by simp
    qed
  qed
qed

lemma rhe_floor: "a div b \<le> round_half_even a b"
  by (simp add: round_half_even_def)

lemma rhe_ceil: "round_half_even a b \<le> a div b + 1"
  by (simp add: round_half_even_def)

lemma rhe_lower:
  assumes "0 < b" "(2 * K + 1) * b < 2 * a"
  shows "K + 1 \<le> round_half_even a b"
proof -
  define q m where "q = a div b" and "m = a mod b"
  have a: "a = b * q + m" and m: "m < b" using assms(1) by (simp_all add: q_def m_def)
  have "(2 * K + 1) * b < (2 * q + 2) * b"
    using assms(2) m by (simp add: a algebra_simps)
  then have "2 * K + 1 < 2 * q + 2" by (simp only: mult_less_cancel2)
  then have kq: "K \<le> q" by simp
  show ?thesis
  proof (cases "K = q")
    case True
    with assms(2) have "b < 2 * m" by (simp add: a algebra_simps)
    then show ?thesis unfolding round_half_even_def q_def [symmetric] m_def [symmetric]
      using True by simp
  next
    case False
    with kq have "K + 1 \<le> q" by simp
    also have "q \<le> round_half_even a b" unfolding q_def by (rule rhe_floor)
    finally show ?thesis .
  qed
qed

lemma rhe_upper:
  assumes "0 < b" "2 * a < (2 * K + 1) * b"
  shows "round_half_even a b \<le> K"
proof -
  define q m where "q = a div b" and "m = a mod b"
  have a: "a = b * q + m" and m: "m < b" using assms(1) by (simp_all add: q_def m_def)
  have "(2 * q) * b < (2 * K + 1) * b"
    using assms(2) by (simp add: a algebra_simps)
  then have "2 * q < 2 * K + 1" by (simp only: mult_less_cancel2)
  then have kq: "q \<le> K" by simp
  show ?thesis
  proof (cases "K = q")
    case True
    with assms(2) have "2 * m < b" by (simp add: a algebra_simps)
    then show ?thesis unfolding round_half_even_def q_def [symmetric] m_def [symmetric]
      using True by simp
  next
    case False
    with kq have "q + 1 \<le> K" by simp
    moreover have "round_half_even a b \<le> q + 1" unfolding q_def by (rule rhe_ceil)
    ultimately show ?thesis by simp
  qed
qed

lemma dscale_threshold: "dscale 67 100 = 53"
  by (rule dscale_unique) simp_all

lemma consensusThreshold_eq: "consensusThreshold = (6034823500676465, 53)"
  by (simp add: consensusThreshold_def double_div_def dscale_threshold round_half_even_def)

lemma consensus_reached_unfold:
  "consensus_reached y n
     = (6034823500676465 * 2 ^ dscale y n \<le> round_half_even (y * 2 ^ dscale y n) n * 2 ^ 53)"
  by (simp add: consensus_reached_def double_ge_def double_div_def consensusThreshold_eq)

lemma consensus_reached_iff:
  assumes n: "0 < n" "n \<le> 2 ^ 49"
  shows "consensus_reached y n \<longleftrightarrow> 67 * n \<le> 100 * y"
proof (cases "y = 0")
  case True
  have "dscale 0 n = 0" by (subst dscale.simps) simp
  then show ?thesis using True n(1)
    by (simp add: consensus_reached_unfold round_half_even_def)
next
  case False
  then have y: "0 < y" by simp
  define e where "e = dscale y n"
  define a where "a = y * 2 ^ e"
  define r where "r = round_half_even a n"
  have cr: "consensus_reached y n \<longleftrightarrow> 6034823500676465 * 2 ^ e \<le> r * 2 ^ 53"
    by (simp add: consensus_reached_unfold e_def a_def r_def)
  have p1: "n * 2 ^ 52 \<le> a" and p2: "e = 0 \<or> a < n * 2 ^ 53"
    using dscale_props [OF y n(1)] by (simp_all add: e_def a_def)
  have "2 ^ 52 \<le> a div n"
    using p1 n(1) by (simp add: less_eq_div_iff_mult_less_eq mult.commute)
  then have big: "2 ^ 52 \<le> r" using rhe_floor [of a n] by (simp add: r_def)
  have small: "r \<le> 2 ^ 53" if "0 < e"
  proof -
    from that p2 have "a < n * 2 ^ 53" by simp
    then have "a div n < 2 ^ 53" using n(1) by (simp add: div_less_iff_less_mult mult.commute)
    then show ?thesis using rhe_ceil [of a n] by (simp add: r_def)
  qed
  show ?thesis
  proof
    assume q: "67 * n \<le> 100 * y"
    have e53: "e \<le> 53"
    proof (rule ccontr)
      assume "\<not> e \<le> 53"
      then have e54: "54 \<le> e" by simp
      then have "(2::nat) ^ 54 \<le> 2 ^ e" by (intro power_increasing) simp_all
      then have "y * 2 ^ 54 \<le> a" unfolding a_def by (rule mult_left_mono) simp
      moreover have "a < n * 2 ^ 53" using p2 e54 by simp
      ultimately show False using q by simp
    qed
    show "consensus_reached y n"
    proof (cases "e = 53")
      case True
      have "(2 * 6034823500676464 + 1) * n < 2 * a"
        using q n(1) by (simp add: a_def True)
      from rhe_lower [OF n(1) this] have "6034823500676465 \<le> r" by (simp add: r_def)
      then show ?thesis by (simp add: cr True)
    next
      case False
      with e53 have "e \<le> 52" by simp
      then have "(2::nat) ^ e \<le> 2 ^ 52" by (intro power_increasing) simp_all
      then have "6034823500676465 * (2::nat) ^ e \<le> 6034823500676465 * 2 ^ 52"
        by (rule mult_left_mono) simp
      also have "\<dots> \<le> 2 ^ 52 * 2 ^ 53" by simp
      also have "\<dots> \<le> r * 2 ^ 53" using big by (rule mult_right_mono) simp
      finally show ?thesis by (simp add: cr)
    qed
  next
    assume c: "consensus_reached y n"
    show "67 * n \<le> 100 * y"
    proof (rule ccontr)
      assume "\<not> 67 * n \<le> 100 * y"
      then have lt: "100 * y < 67 * n" by simp
      have e53: "53 \<le> e"
      proof (rule ccontr)
        assume "\<not> 53 \<le> e"
        then have "e \<le> 52" by simp
        then have "(2::nat) ^ e \<le> 2 ^ 52" by (intro power_increasing) simp_all
        then have "a \<le> y * 2 ^ 52" unfolding a_def by (rule mult_left_mono) simp
        with p1 have "n * 2 ^ 52 \<le> y * 2 ^ 52" by simp
        then have "n \<le> y" by simp
        with lt show False by simp
      qed
      then have r53: "r \<le> 2 ^ 53" using small by simp
      show False
      proof (cases "e = 53")
        case True
        have "2 * a < (2 * 6034823500676464 + 1) * n"
          using lt n by (simp add: a_def True)
        from rhe_upper [OF n(1) this] have "r \<le> 6034823500676464" by (simp add: r_def)
        with c show False by (simp add: cr True)
      next
        case False
        with e53 have "54 \<le> e" by simp
        then have "(2::nat) ^ 54 \<le> 2 ^ e" by (intro power_increasing) simp_all
        then have "6034823500676465 * (2::nat) ^ 54 \<le> 6034823500676465 * 2 ^ e"
          by (rule mult_left_mono) simp
        moreover have "r * 2 ^ 53 \<le> 2 ^ 53 * 2 ^ 53"
          using r53 by (rule mult_right_mono) simp
        moreover have "(2::nat) ^ 53 * 2 ^ 53 < 6034823500676465 * 2 ^ 54" by simp
        ultimately show False using c by (simp add: cr)
      qed
    qed
  qed
qed

lemma quorum_1_3: "\<not> consensus_reached (Suc 0) 3"
  by (simp add: consensus_reached_iff)

lemma quorum_1_1: "consensus_reached (Suc 0) (Suc 0)"
  by (simp add: consensus_reached_iff)

subsection \<open>Voting\<close>





subsection \<open>The example engine evaluated\<close>

lemma hash_block_proposal_nonempty: "hash (block_proposal now txs bc) \<noteq> []"
  by (simp add: block_proposal_def Let_def calculateBlockHash_def calculateHash_def sha256_nonempty)

lemma demo_proposal_fields:
  "index demo_proposal = 1" "timestamp demo_proposal = 5"
  "transactions demo_proposal = [demo_tx]"
  "previousHash demo_proposal = hash demo_genesis"
  "merkleRoot demo_proposal = calculateMerkleRoot [demo_tx]"
  by (simp_all add: demo_proposal_def block_proposal_def Let_def demo_ledger_def)

lemma valid_demo_tx: "isValidTransaction demo_tx = Inr True"
  by (simp add: isValidTransaction_def demo_tx_def)

lemma validate_demo_proposal: "validateBlockProposal demo_ledger demo_proposal = Inr True"
  using hash_block_proposal_nonempty [of 5 "[demo_tx]" demo_ledger]
  by (simp add: validateBlockProposal_def demo_proposal_fields valid_demo_tx demo_merkleRoot
      demo_genesis_eq demo_proposal_def [symmetric])
     (simp add: demo_ledger_def demo_genesis_eq)

lemma validate_demo_block: "validateBlockProposal demo_mined demo_block = Inr True"
  by (simp add: validateBlockProposal_def demo_block_def valid_demo_tx demo_merkleRoot
      demo_mined_def)

lemma mine_demo_mined: "minePendingTransactions t demo_mined = Some (Inl EmptyInput)"
  by (simp add: minePendingTransactions_def demo_mined_def)

lemma yes_votes_snoc:
  "yes_votes (vm @ [(n, make_vote t h v n)]) = yes_votes vm + (if v then 1 else 0)"
  by (simp add: yes_votes_def make_vote_def)

lemma demo_engine_facts:
  "pendingValidations demo_engine k = None"
  "nodeId (nodeManager demo_engine) = ''n1''"
  "getNodeCount (nodeManager demo_engine) = 3"
  "ledger demo_engine = demo_ledger"
  by (simp_all add: demo_engine_def getNodeCount_def)

lemma demo_voting_facts:
  "pendingValidations demo_voting (hash demo_proposal)
     = Some \<lparr>proposal = demo_proposal, entry_votes = [], createdAt = 5\<rparr>"
  "votes demo_voting (hash demo_proposal) = Some []"
  "nodeId (nodeManager demo_voting) = ''n1''"
  "getNodeCount (nodeManager demo_voting) = 3"
  "ledger demo_voting = demo_ledger"
  by (simp_all add: demo_voting_def demo_engine_def getNodeCount_def)


lemma demo_two_yes_facts:
  "pendingValidations demo_two_yes (hash demo_proposal)
     = Some \<lparr>proposal = demo_proposal, entry_votes = [], createdAt = 5\<rparr>"
  "votes demo_two_yes (hash demo_proposal)
     = Some [(''n1'', make_vote 6 (hash demo_proposal) True ''n1''),
             (''n2'', make_vote 6 (hash demo_proposal) True ''n2'')]"
  "nodeId (nodeManager demo_two_yes) = ''n1''"
  "getNodeCount (nodeManager demo_two_yes) = 3"
  "ledger demo_two_yes = demo_ledger"
  by (simp_all add: demo_two_yes_def demo_voting_def demo_engine_def getNodeCount_def)

lemma demo_unstamped_facts:
  "pendingValidations demo_unstamped (hash demo_proposal)
     = Some \<lparr>proposal = demo_proposal\<lparr>timestamp := 0\<rparr>, entry_votes = [], createdAt = 5\<rparr>"
  "votes demo_unstamped (hash demo_proposal) = Some []"
  "nodeId (nodeManager demo_unstamped) = ''n1''"
  "ledger demo_unstamped = demo_ledger"
  by (simp_all add: demo_unstamped_def demo_voting_def demo_engine_def)

lemma validate_unstamped:
  "validateBlockProposal bc (demo_proposal\<lparr>timestamp := 0\<rparr>) = Inr False"
  by (simp add: validateBlockProposal_def)

lemma demo_solo_facts:
  "pendingValidations demo_solo (hash demo_block)
     = Some \<lparr>proposal = demo_block, entry_votes = [], createdAt = 5\<rparr>"
  "votes demo_solo (hash demo_block) = Some []"
  "nodeId (nodeManager demo_solo) = ''n1''"
  "getNodeCount (nodeManager demo_solo) = 1"
  "ledger demo_solo = demo_mined"
  "hash demo_block \<noteq> []"
  by (simp_all add: demo_solo_def getNodeCount_def demo_block_def)

lemma yes_votes_single: "yes_votes [(n, make_vote t h True m)] = 1"
  by (simp add: yes_votes_def make_vote_def)







section \<open>Properties of the ledger's Merkle root\<close>

lemma merkle_level_pair:
  "2 * i + 1 < length t \<Longrightarrow> merkle_level t ! i = calculateHash [JStr (t ! (2 * i) @ t ! (2 * i + 1))]"
proof (induction t arbitrary: i rule: merkle_level.induct)
  case (1 x y rest)
  then show ?case by (cases i) simp_all
qed simp_all

lemma merkle_level_odd_last:
  "odd (length t) \<Longrightarrow> last (merkle_level t) = last t"
proof (induction t rule: merkle_level.induct)
  case (1 x y rest)
  then have "rest \<noteq> []" by auto
  moreover from this have "merkle_level rest \<noteq> []"
    by (cases rest rule: merkle_level.cases) simp_all
  ultimately show ?case using 1 by simp
qed simp_all

text \<open>
  C5. The ledger's Merkle-root routine: the digest of the empty string for no transaction;
  for exactly one transaction the hash of that transaction, not combined with a copy of
  itself; for two or more, the leaves are the transactions' hashes and every level hashes
  adjacent pairs, while the trailing node of an odd level moves to the next level as it is
  (it is not hashed with itself), until one node is left.
\<close>

theorem calculateMerkleRoot_shape:
  "calculateMerkleRoot [] = sha256 ''''
   \<and> calculateMerkleRoot [tx] = sha256 (arg_string tx)
   \<and> (2 \<le> length txs \<longrightarrow>
        calculateMerkleRoot txs = hd (merkle_while (map (\<lambda>tx. sha256 (arg_string tx)) txs)))
   \<and> (1 < length t \<longrightarrow> merkle_while t = merkle_while (merkle_level t))
   \<and> (length t \<le> 1 \<longrightarrow> merkle_while t = t)
   \<and> length (merkle_level t) = (length t + 1) div 2
   \<and> (\<forall>i. 2 * i + 1 < length t \<longrightarrow>
          merkle_level t ! i = sha256 (t ! (2 * i) @ t ! (2 * i + 1)))
   \<and> (odd (length t) \<longrightarrow> last (merkle_level t) = last t)"
proof -
  have "\<forall>i. 2 * i + 1 < length t \<longrightarrow>
          merkle_level t ! i = sha256 (t ! (2 * i) @ t ! (2 * i + 1))"
    using merkle_level_pair [of _ t] by (simp add: calculateHash_def)
  moreover have "1 < length t \<longrightarrow> merkle_while t = merkle_while (merkle_level t)"
    by (subst merkle_while.simps) simp
  moreover have "length t \<le> 1 \<longrightarrow> merkle_while t = t"
    by (subst merkle_while.simps) simp
  ultimately show ?thesis
    by (simp add: calculateMerkleRoot_def calculateHash_def length_merkle_level
        merkle_level_odd_last)
qed

theorem calculateMerkleRoot_shape_witness:
  "calculateMerkleRoot [JStr ''a'', JStr ''b'', JStr ''c'']
     = sha256 (sha256 (sha256 ''a'' @ sha256 ''b'') @ sha256 ''c'')
   \<and> merkle_level [''x'', ''y'', ''z''] = [sha256 ''xy'', ''z'']"
proof -
  let ?t = "[sha256 ''a'', sha256 ''b'', sha256 ''c'']"
  have shape: "calculateMerkleRoot [JStr ''a'', JStr ''b'', JStr ''c'']
      = hd (merkle_while (map (\<lambda>tx. sha256 (arg_string tx)) [JStr ''a'', JStr ''b'', JStr ''c'']))"
    using calculateMerkleRoot_shape [of undefined "[JStr ''a'', JStr ''b'', JStr ''c'']" "[]"]
    by simp
  have "merkle_while ?t = [sha256 (sha256 (sha256 ''a'' @ sha256 ''b'') @ sha256 ''c'')]"
    by (subst merkle_while.simps, simp add: calculateHash_def,
        subst merkle_while.simps, simp add: calculateHash_def,
        subst merkle_while.simps, simp)
  with shape show ?thesis by (simp add: calculateHash_def)
qed

section \<open>The Merkle tree over three records\<close>

lemma getProof_path_length:
  assumes "root t = Some r" "r \<noteq> []" "\<not> is_hash_string d" "MerkleTree_hash d \<in> set (leaves t)"
  shows "path_length (getProof t d) = Some (length (levels t) - 1)"
proof -
  from assms(4) obtain i where i: "findIndex (\<lambda>h. h = MerkleTree_hash d) (leaves t) = Some i"
    using findIndex_mem [of "MerkleTree_hash d" "leaves t"] by auto
  have "getProof t d = Inr (JObj [(''leaf'', JStr (MerkleTree_hash d)),
                               (''path'', JArr (proof_path (levels t) i)),
                               (''root'', JStr r)])"
    unfolding getProof_def by (simp only: assms(1-3) i Let_def option.case if_False)
  then show ?thesis
    by (simp add: path_length_def length_proof_path)
qed

text \<open>
  C9. The tree over the three items \<^verbatim>\<open>"record1", "record2", "record3"\<close>: the first
  combine level hashes the first two leaves together and the odd trailing leaf with a copy
  of itself, and the proof returned by \<^verbatim>\<open>getProof\<close> for each of the three items has a
  path of exactly two entries.
\<close>

theorem three_records_tree:
  "levels (buildTree [JStr ''record1'', JStr ''record2'', JStr ''record3'']) =
     [[sha256 ''record1'', sha256 ''record2'', sha256 ''record3''],
      [MerkleTree_hash (JStr (sha256 ''record1'' @ sha256 ''record2'')),
       MerkleTree_hash (JStr (sha256 ''record3'' @ sha256 ''record3''))],
      [MerkleTree_hash (JStr
         (MerkleTree_hash (JStr (sha256 ''record1'' @ sha256 ''record2''))
          @ MerkleTree_hash (JStr (sha256 ''record3'' @ sha256 ''record3''))))]]
   \<and> path_length (getProof (buildTree [JStr ''record1'', JStr ''record2'', JStr ''record3''])
                    (JStr ''record1'')) = Some 2
   \<and> path_length (getProof (buildTree [JStr ''record1'', JStr ''record2'', JStr ''record3''])
                    (JStr ''record2'')) = Some 2
   \<and> path_length (getProof (buildTree [JStr ''record1'', JStr ''record2'', JStr ''record3''])
                    (JStr ''record3'')) = Some 2"
proof -
  define t where "t = buildTree [JStr ''record1'', JStr ''record2'', JStr ''record3'']"
  have lv: "levels t =
     [[sha256 ''record1'', sha256 ''record2'', sha256 ''record3''],
      [MerkleTree_hash (JStr (sha256 ''record1'' @ sha256 ''record2'')),
       MerkleTree_hash (JStr (sha256 ''record3'' @ sha256 ''record3''))],
      [MerkleTree_hash (JStr
         (MerkleTree_hash (JStr (sha256 ''record1'' @ sha256 ''record2''))
          @ MerkleTree_hash (JStr (sha256 ''record3'' @ sha256 ''record3''))))]]"
    and le: "leaves t = [sha256 ''record1'', sha256 ''record2'', sha256 ''record3'']"
    by (simp_all add: t_def buildTree_def hash_record1 hash_record2 hash_record3 Let_def
        build_levels_3)
  obtain r where rt: "root t = Some r" "r \<noteq> []"
    by (simp add: t_def buildTree_def Let_def build_levels_3 MerkleTree_hash_nonempty)
  have l2: "length (levels t) - Suc 0 = 2" by (simp add: lv)
  have p1: "path_length (getProof t (JStr ''record1'')) = Some 2"
    using getProof_path_length [OF rt, of "JStr ''record1''"] by (simp add: le hash_record1 l2)
  have p2: "path_length (getProof t (JStr ''record2'')) = Some 2"
    using getProof_path_length [OF rt, of "JStr ''record2''"] by (simp add: le hash_record2 l2)
  have p3: "path_length (getProof t (JStr ''record3'')) = Some 2"
    using getProof_path_length [OF rt, of "JStr ''record3''"] by (simp add: le hash_record3 l2)
  show ?thesis
    unfolding t_def [symmetric] by (simp only: lv p1 p2 p3 simp_thms)
qed

section \<open>Proof verification on malformed proofs\<close>

text \<open>
  C8. Proof verification is claimed to fail closed: any proof of the wrong shape gives
  \<^verbatim>\<open>false\<close>, never an exception. The code checks \<^verbatim>\<open>proof\<close>, \<^verbatim>\<open>proof.path\<close> and
  \<^verbatim>\<open>proof.root\<close> only: a proof without \<^verbatim>\<open>leaf\<close>, and a path entry without
  \<^verbatim>\<open>hash\<close>, make \<^verbatim>\<open>verifyProof\<close> throw.
\<close>

theorem verifyProof_throws:
  "verifyProof (JStr ''record1'') (JObj [(''path'', JArr []), (''root'', JStr ''abc'')]) (JStr ''abc'')
     = Inl TypeError
   \<and> verifyProof JNull
        (JObj [(''leaf'', JStr ''ab''), (''path'', JArr [JObj [(''position'', JStr ''left'')]]),
               (''root'', JStr ''abc'')]) JNull
     = Inl TypeError"
  by (simp add: verifyProof_def)

section \<open>Proof round trip\<close>

lemma MerkleTree_hash_plain: "JSON_parse s = None \<Longrightarrow> MerkleTree_hash (JStr s) = sha256 s"
  by (simp add: MerkleTree_hash_def)

lemma next_level_nth:
  "plain_level cur \<Longrightarrow> i < length cur \<Longrightarrow>
   next_level cur ! (i div 2) =
     (if i mod 2 = 0
      then (if i + 1 < length cur then sha256 (cur ! i @ cur ! (i + 1)) else sha256 (cur ! i @ cur ! i))
      else sha256 (cur ! (i - 1) @ cur ! i))"
proof (induction cur arbitrary: i rule: next_level.induct)
  case (1 left right rest)
  show ?case
  proof (cases "i < 2")
    case True
    then have "i = 0 \<or> i = 1" by arith
    with 1(2) show ?thesis by (auto simp: MerkleTree_hash_plain)
  next
    case False
    then obtain j where j: "i = j + 2" by (metis add.commute le_Suc_ex not_less)
    with 1 have "j < length rest" "plain_level rest" by auto
    from 1(1) [OF this(2) this(1)] j show ?thesis by (simp add: nth_Cons')
  qed
next
  case (2 lst)
  then show ?case by (simp add: MerkleTree_hash_plain)
next
  case 3
  then show ?case by simp
qed

lemma build_levels_nonempty: "build_levels cur \<noteq> []"
  by (subst build_levels.simps) simp

lemma hd_build_levels: "hd (build_levels cur) = cur"
  by (subst build_levels.simps) simp

lemma next_level_lower: "\<forall>x \<in> set (next_level cur). toLowerCase x = x"
  by (induction cur rule: next_level.induct) (simp_all add: toLowerCase_MerkleTree_hash)

lemma verify_path_build_levels:
  "i < length cur \<Longrightarrow> \<forall>x \<in> set cur. toLowerCase x = x \<Longrightarrow>
   list_all plain_level (butlast (build_levels cur)) \<Longrightarrow>
   verify_path (proof_path (build_levels cur) i) (cur ! i) = Inr (last (build_levels cur) ! 0)"
proof (induction cur arbitrary: i rule: build_levels.induct)
  case (1 cur)
  show ?case
  proof (cases "length cur > 1")
    case False
    with 1(2) have "i = 0" by simp
    with False show ?thesis by (subst (1 2) build_levels.simps) simp
  next
    case True
    define up where "up = build_levels (next_level cur)"
    have bl: "build_levels cur = cur # up"
      using True by (subst build_levels.simps) (simp add: up_def)
    obtain u rest where up: "up = u # rest" "u = next_level cur"
      using hd_build_levels [of "next_level cur"] build_levels_nonempty [of "next_level cur"]
      by (cases up) (auto simp: up_def)
    from 1(4) bl up have pl: "plain_level cur" and plr: "list_all plain_level (butlast up)"
      by simp_all
    have i2: "i div 2 < length (next_level cur)"
      using 1(2) by (simp add: length_next_level)
    have ih: "verify_path (proof_path up (i div 2)) (next_level cur ! (i div 2))
               = Inr (last up ! 0)"
      unfolding up_def using 1(1) [OF True i2 next_level_lower] plr by (simp add: up_def)
    have low: "toLowerCase (cur ! j) = cur ! j" if "j < length cur" for j
      using 1(3) that by simp
    have step: "verify_path (proof_path (cur # up) i) (cur ! i)
               = verify_path (proof_path up (i div 2)) (next_level cur ! (i div 2))"
    proof (cases "i mod 2 = 0")
      case ev: True
      show ?thesis
      proof (cases "i + 1 < length cur")
        case True
        then show ?thesis
          using ev 1(2) next_level_nth [OF pl 1(2)] up low [of "i + 1"]
          by (simp add: Let_def)
      next
        case False
        then show ?thesis
          using ev 1(2) next_level_nth [OF pl 1(2)] up low [of i]
          by (simp add: Let_def)
      qed
    next
      case od: False
      then have "i - 1 < length cur" "0 < i" using 1(2) by (auto intro: Nat.gr0I)
      then show ?thesis
        using od 1(2) next_level_nth [OF pl 1(2)] up low [of "i - 1"]
        by (simp add: Let_def)
    qed
    show ?thesis
      using step ih bl up by simp
  qed
qed

lemma toLowerCase_leaves: "\<forall>x \<in> set (map MerkleTree_hash items). toLowerCase x = x"
  by (simp add: toLowerCase_MerkleTree_hash)

text \<open>
  C1 (as amended). For a tree built over a non-empty list of items and an item of the list
  that is not itself a 64-character hex string, \<^verbatim>\<open>getProof\<close> returns a proof and
  \<^verbatim>\<open>verifyProof(item, proof, root)\<close> is \<^verbatim>\<open>true\<close>, provided no pair of sibling hashes
  combined by \<^verbatim>\<open>buildTree\<close> concatenates to valid JSON text.
\<close>

theorem proof_roundtrip:
  assumes "items \<noteq> []" and "item \<in> set items" and "\<not> is_hash_string item"
    and "list_all plain_level (butlast (levels (buildTree items)))"
  shows "\<exists>p r. getProof (buildTree items) item = Inr p \<and> root (buildTree items) = Some r
               \<and> verifyProof item p (JStr r) = Inr True"
proof -
  define lvs where "lvs = map MerkleTree_hash items"
  define lvls where "lvls = build_levels lvs"
  define r where "r = last lvls ! 0"
  have t: "buildTree items = \<lparr>leaves = lvs, root = Some r, levels = lvls\<rparr>"
    using assms(1) by (simp add: buildTree_def Let_def lvs_def lvls_def r_def)
  have "MerkleTree_hash item \<in> set lvs"
    using assms(2) by (simp add: lvs_def)
  then obtain i where i: "findIndex (\<lambda>h. h = MerkleTree_hash item) lvs = Some i"
    "i < length lvs" "lvs ! i = MerkleTree_hash item"
    using findIndex_mem [of "MerkleTree_hash item" lvs] by auto
  have vp: "verify_path (proof_path lvls i) (MerkleTree_hash item) = Inr r"
    using verify_path_build_levels [of i lvs] i(2,3) assms(4) toLowerCase_leaves [of items]
    by (simp add: t lvls_def r_def lvs_def)
  have rne: "r \<noteq> []"
    using verify_path_nonempty [OF MerkleTree_hash_nonempty vp] .
  define p where "p = JObj [(''leaf'', JStr (MerkleTree_hash item)),
                            (''path'', JArr (proof_path lvls i)), (''root'', JStr r)]"
  have gp: "getProof (buildTree items) item = Inr p"
    using i(1) assms(3) rne by (simp add: getProof_def t p_def)
  have "verifyProof item p (JStr r) = Inr True"
    using vp rne assms(3) by (simp add: verifyProof_def p_def toLowerCase_MerkleTree_hash)
  with gp t show ?thesis by simp
qed

theorem proof_roundtrip_witness:
  "[JStr ''record1'', JStr ''record2''] \<noteq> []
   \<and> JStr ''record1'' \<in> set [JStr ''record1'', JStr ''record2'']
   \<and> \<not> is_hash_string (JStr ''record1'')
   \<and> list_all plain_level (butlast (levels (buildTree [JStr ''record1'', JStr ''record2''])))
   \<and> (\<exists>p r. getProof (buildTree [JStr ''record1'', JStr ''record2'']) (JStr ''record1'') = Inr p
          \<and> root (buildTree [JStr ''record1'', JStr ''record2'']) = Some r
          \<and> verifyProof (JStr ''record1'') p (JStr r) = Inr True)"
proof -
  have lv: "levels (buildTree [JStr ''record1'', JStr ''record2'']) =
      [[sha256 ''record1'', sha256 ''record2''],
       [MerkleTree_hash (JStr (sha256 ''record1'' @ sha256 ''record2''))]]"
    by (simp add: buildTree_def Let_def hash_record1 hash_record2 build_levels_2)
  have pl: "JSON_parse (sha256 ''record1'' @ sha256 ''record2'') = None"
    unfolding sha256_record1 sha256_record2 by (simp add: parse_eval)
  have h: "list_all plain_level (butlast (levels (buildTree [JStr ''record1'', JStr ''record2''])))"
    by (simp add: lv pl)
  have n: "\<not> is_hash_string (JStr ''record1'')"
    by simp
  show ?thesis
    using proof_roundtrip [of "[JStr ''record1'', JStr ''record2'']" "JStr ''record1''", OF _ _ n h] h
    by simp
qed

text \<open>
  C1 as stated fails on an item that is a 64-character hex string: \<^verbatim>\<open>getProof\<close> takes
  such an argument for a leaf hash and looks it up as it is, while the leaf stored for the
  item is the digest of the item.
\<close>

theorem proof_roundtrip_counterexample:
  "getProof (buildTree [JStr ''aaaaaaaaaaaaaaaaaaaaaaaaaaaaaaaaaaaaaaaaaaaaaaaaaaaaaaaaaaaaaaaa'']) (JStr ''aaaaaaaaaaaaaaaaaaaaaaaaaaaaaaaaaaaaaaaaaaaaaaaaaaaaaaaaaaaaaaaa'') = Inl NotFound"
proof -
  have h: "MerkleTree_hash (JStr ''aaaaaaaaaaaaaaaaaaaaaaaaaaaaaaaaaaaaaaaaaaaaaaaaaaaaaaaaaaaaaaaa'') = sha256 ''aaaaaaaaaaaaaaaaaaaaaaaaaaaaaaaaaaaaaaaaaaaaaaaaaaaaaaaaaaaaaaaa''"
    by (simp add: MerkleTree_hash_def parse_eval)
  have t: "buildTree [JStr ''aaaaaaaaaaaaaaaaaaaaaaaaaaaaaaaaaaaaaaaaaaaaaaaaaaaaaaaaaaaaaaaa'']
      = \<lparr>leaves = [sha256 ''aaaaaaaaaaaaaaaaaaaaaaaaaaaaaaaaaaaaaaaaaaaaaaaaaaaaaaaaaaaaaaaa''], root = Some (sha256 ''aaaaaaaaaaaaaaaaaaaaaaaaaaaaaaaaaaaaaaaaaaaaaaaaaaaaaaaaaaaaaaaa''), levels = [[sha256 ''aaaaaaaaaaaaaaaaaaaaaaaaaaaaaaaaaaaaaaaaaaaaaaaaaaaaaaaaaaaaaaaa'']]\<rparr>"
    by (simp add: buildTree_def Let_def h build_levels_1)
  have hs: "is_hash_string (JStr ''aaaaaaaaaaaaaaaaaaaaaaaaaaaaaaaaaaaaaaaaaaaaaaaaaaaaaaaaaaaaaaaa'')"
    by (simp add: is_hex_char_def is_digit_def)
  have lc: "toLowerCase ''aaaaaaaaaaaaaaaaaaaaaaaaaaaaaaaaaaaaaaaaaaaaaaaaaaaaaaaaaaaaaaaa'' = ''aaaaaaaaaaaaaaaaaaaaaaaaaaaaaaaaaaaaaaaaaaaaaaaaaaaaaaaaaaaaaaaa''"
    by (simp add: toLowerCase_def to_lower_char_def)
  show ?thesis
    unfolding getProof_def t
    by (simp add: lc sha256_nonempty sha256_a64 is_hex_char_def is_digit_def)
qed

section \<open>Mining\<close>

lemma proofOfWork_found:
  "meets_target (calculateBlockHash (b\<lparr>nonce := n\<rparr>)) \<Longrightarrow> n \<le> 9007199254740992 \<Longrightarrow> nonce b \<le> n \<Longrightarrow>
   \<exists>m. nonce b \<le> m \<and> m \<le> n \<and> meets_target (calculateBlockHash (b\<lparr>nonce := m\<rparr>))
     \<and> (\<forall>k. nonce b \<le> k \<and> k < m \<longrightarrow> \<not> meets_target (calculateBlockHash (b\<lparr>nonce := k\<rparr>)))
     \<and> proofOfWork b = Some (b\<lparr>nonce := m\<rparr>, calculateBlockHash (b\<lparr>nonce := m\<rparr>))"
proof (induction "n - nonce b" arbitrary: b)
  case 0
  then have "b\<lparr>nonce := n\<rparr> = b" by simp
  with 0 show ?case
    by (intro exI [of _ n]) (subst proofOfWork.simps, auto)
next
  case (Suc d)
  show ?case
  proof (cases "meets_target (calculateBlockHash b)")
    case True
    then show ?thesis
      using Suc.prems by (intro exI [of _ "nonce b"]) (subst proofOfWork.simps, auto)
  next
    case False
    let ?b = "b\<lparr>nonce := nonce_incr (nonce b)\<rparr>"
    from Suc have lt: "nonce b < n" by simp
    then have ni: "nonce_incr (nonce b) = nonce b + 1"
      using Suc.prems(2) by (simp add: nonce_incr_def)
    have "d = n - nonce ?b" using Suc(2) ni by simp
    moreover have "meets_target (calculateBlockHash (?b\<lparr>nonce := n\<rparr>))"
      using Suc.prems(1) by simp
    moreover have "nonce ?b \<le> n" using lt ni by simp
    ultimately obtain m where m: "nonce ?b \<le> m" "m \<le> n"
      "meets_target (calculateBlockHash (?b\<lparr>nonce := m\<rparr>))"
      "\<forall>k. nonce ?b \<le> k \<and> k < m \<longrightarrow> \<not> meets_target (calculateBlockHash (?b\<lparr>nonce := k\<rparr>))"
      "proofOfWork ?b = Some (?b\<lparr>nonce := m\<rparr>, calculateBlockHash (?b\<lparr>nonce := m\<rparr>))"
      using Suc(1) [of ?b] Suc.prems(2) by blast
    have "\<forall>k. nonce b \<le> k \<and> k < m \<longrightarrow> \<not> meets_target (calculateBlockHash (b\<lparr>nonce := k\<rparr>))"
    proof (intro allI impI)
      fix k assume k: "nonce b \<le> k \<and> k < m"
      show "\<not> meets_target (calculateBlockHash (b\<lparr>nonce := k\<rparr>))"
      proof (cases "k = nonce b")
        case True
        then have "b\<lparr>nonce := k\<rparr> = b" by simp
        with False show ?thesis by simp
      next
        case False
        with k ni have "nonce ?b \<le> k \<and> k < m" by simp
        with m(4) show ?thesis by simp
      qed
    qed
    moreover have "proofOfWork b = Some (b\<lparr>nonce := m\<rparr>, calculateBlockHash (b\<lparr>nonce := m\<rparr>))"
      using False m(5) by (subst proofOfWork.simps) simp
    ultimately show ?thesis
      using m(1,2,3) ni by (intro exI [of _ m]) simp
  qed
qed

text \<open>
  C3 (as amended). On a ledger whose chain is not empty, \<^verbatim>\<open>minePendingTransactions\<close> fails
  exactly when the pending pool is empty. On a non-empty pool, whenever some nonce up to
  \<open>2^53\<close> gives the candidate block a hash with the prefix \<^verbatim>\<open>00\<close>, it returns, having
  appended exactly one block: its transactions are the pool in its order, its stored hash is
  the hash of its contents and starts with \<^verbatim>\<open>00\<close>, the pool is empty afterwards and the
  chain is longer by one.
\<close>

theorem minePendingTransactions_spec:
  assumes "chain bc \<noteq> []"
  shows "(pendingTransactions bc = [] \<longrightarrow> minePendingTransactions now bc = Some (Inl EmptyInput))
    \<and> (\<forall>e. minePendingTransactions now bc = Some (Inl e) \<longrightarrow> pendingTransactions bc = [])
    \<and> (pendingTransactions bc \<noteq> [] \<longrightarrow>
         (\<forall>n \<le> 9007199254740992.
            meets_target (calculateBlockHash ((candidate_block now bc)\<lparr>nonce := n\<rparr>)) \<longrightarrow>
            (\<exists>b bc'. minePendingTransactions now bc = Some (Inr (b, bc'))
               \<and> chain bc' = chain bc @ [b]
               \<and> length (chain bc') = length (chain bc) + 1
               \<and> pendingTransactions bc' = []
               \<and> length (pendingTransactions bc') = 0
               \<and> transactions b = pendingTransactions bc
               \<and> hash b = calculateBlockHash b
               \<and> take 2 (hash b) = ''00''
               \<and> nonce b \<le> n)))"
proof (intro conjI allI impI)
  assume "pendingTransactions bc = []"
  then show "minePendingTransactions now bc = Some (Inl EmptyInput)"
    by (simp add: minePendingTransactions_def)
next
  fix e assume "minePendingTransactions now bc = Some (Inl e)"
  then show "pendingTransactions bc = []"
    using assms by (auto simp: minePendingTransactions_def split: if_splits option.splits)
next
  fix n :: nat
  assume ne: "pendingTransactions bc \<noteq> []" and n: "n \<le> 9007199254740992"
    and ok: "meets_target (calculateBlockHash ((candidate_block now bc)\<lparr>nonce := n\<rparr>))"
  let ?c = "candidate_block now bc"
  have "nonce ?c \<le> n" by (simp add: candidate_block_def)
  from proofOfWork_found [OF ok n this]
  obtain m where m: "m \<le> n" "meets_target (calculateBlockHash (?c\<lparr>nonce := m\<rparr>))"
    "proofOfWork ?c = Some (?c\<lparr>nonce := m\<rparr>, calculateBlockHash (?c\<lparr>nonce := m\<rparr>))"
    by blast
  let ?b = "?c\<lparr>nonce := m, hash := calculateBlockHash (?c\<lparr>nonce := m\<rparr>)\<rparr>"
  let ?bc = "bc\<lparr>chain := chain bc @ [?b], pendingTransactions := []\<rparr>"
  have r: "minePendingTransactions now bc = Some (Inr (?b, ?bc))"
    using ne assms m(3) by (simp add: minePendingTransactions_def)
  have h: "hash ?b = calculateBlockHash ?b"
    by (simp add: calculateBlockHash_def block_args_def)
  have t: "take 2 (hash ?b) = ''00''"
    using m(2) by (simp add: meets_target_def difficulty_def numeral_2_eq_2)
  have tx: "transactions ?b = pendingTransactions bc"
    by (simp add: candidate_block_def)
  show "\<exists>b bc'. minePendingTransactions now bc = Some (Inr (b, bc'))
               \<and> chain bc' = chain bc @ [b]
               \<and> length (chain bc') = length (chain bc) + 1
               \<and> pendingTransactions bc' = []
               \<and> length (pendingTransactions bc') = 0
               \<and> transactions b = pendingTransactions bc
               \<and> hash b = calculateBlockHash b
               \<and> take 2 (hash b) = ''00''
               \<and> nonce b \<le> n"
    using r h t tx m(1) by (intro exI [of _ ?b] exI [of _ ?bc]) simp
qed

theorem minePendingTransactions_spec_witness:
  "chain demo_ledger \<noteq> [] \<and> pendingTransactions demo_ledger \<noteq> []
   \<and> meets_target (calculateBlockHash ((candidate_block 195 demo_ledger)\<lparr>nonce := 0\<rparr>))
   \<and> (\<exists>b bc'. minePendingTransactions 195 demo_ledger = Some (Inr (b, bc'))
          \<and> chain bc' = chain demo_ledger @ [b]
          \<and> length (chain bc') = length (chain demo_ledger) + 1
          \<and> pendingTransactions bc' = []
          \<and> length (pendingTransactions bc') = 0
          \<and> transactions b = pendingTransactions demo_ledger
          \<and> hash b = calculateBlockHash b
          \<and> take 2 (hash b) = ''00''
          \<and> nonce b \<le> 0)"
proof -
  have c: "chain demo_ledger \<noteq> []" and p: "pendingTransactions demo_ledger \<noteq> []"
    by (simp_all add: demo_ledger_def)
  from minePendingTransactions_spec [OF c, of 195] p demo_meets_target
  have "\<exists>b bc'. minePendingTransactions 195 demo_ledger = Some (Inr (b, bc'))
          \<and> chain bc' = chain demo_ledger @ [b]
          \<and> length (chain bc') = length (chain demo_ledger) + 1
          \<and> pendingTransactions bc' = []
          \<and> length (pendingTransactions bc') = 0
          \<and> transactions b = pendingTransactions demo_ledger
          \<and> hash b = calculateBlockHash b
          \<and> take 2 (hash b) = ''00''
          \<and> nonce b \<le> 0"
    by (elim conjE) (drule mp, assumption, drule spec [of _ 0], simp)
  with c p demo_meets_target show ?thesis by simp
qed

text \<open>
  C3 as stated fails on a ledger whose genesis block was never created: with a non-empty
  pool and an empty chain, reading the latest block's hash throws.
\<close>

theorem minePendingTransactions_counterexample:
  "minePendingTransactions 5 \<lparr>chain = [], pendingTransactions = [JObj [(''from'', JStr ''a'')]]\<rparr>
     = Some (Inl TypeError)"
  by (simp add: minePendingTransactions_def)

section \<open>Tamper evidence\<close>

lemma calculateHash_single: "calculateHash [j] = sha256 (arg_string j)"
  by (simp add: calculateHash_def)

lemma merkle_level_len64:
  "\<forall>x \<in> set t. length x = 64 \<Longrightarrow> \<forall>x \<in> set (merkle_level t). length x = 64"
  by (induction t rule: merkle_level.induct) (simp_all add: calculateHash_def length_sha256)

lemma merkle_level_inj:
  "length t = length t' \<Longrightarrow> \<forall>x \<in> set t. length x = 64 \<Longrightarrow> \<forall>x \<in> set t'. length x = 64 \<Longrightarrow>
   inj_on sha256 (set (level_inputs t) \<union> set (level_inputs t')) \<Longrightarrow>
   merkle_level t = merkle_level t' \<Longrightarrow> t = t'"
proof (induction t arbitrary: t' rule: merkle_level.induct)
  case (1 x y rest)
  then obtain x' y' rest' where t': "t' = x' # y' # rest'"
    by (cases t'; cases "tl t'") auto
  with 1(6) have h: "sha256 (x @ y) = sha256 (x' @ y')" and r: "merkle_level rest = merkle_level rest'"
    by (simp_all add: calculateHash_def)
  have "x @ y = x' @ y'"
    by (rule inj_onD [OF 1(5) h]) (simp_all add: t')
  moreover have "length x = length x'" using 1(3,4) t' by simp
  ultimately have xy: "x = x'" "y = y'" by simp_all
  have "inj_on sha256 (set (level_inputs rest) \<union> set (level_inputs rest'))"
    using 1(5) unfolding t' by (auto intro: inj_on_subset)
  with 1(1) [of rest'] 1(2,3,4) r t' have "rest = rest'" by simp
  with xy t' show ?case by simp
next
  case (2 x)
  then show ?case by (cases t') auto
next
  case 3
  then show ?case by simp
qed

lemma merkle_while_inj:
  "length t = length t' \<Longrightarrow> \<forall>x \<in> set t. length x = 64 \<Longrightarrow> \<forall>x \<in> set t'. length x = 64 \<Longrightarrow>
   inj_on sha256 (set (while_inputs t) \<union> set (while_inputs t')) \<Longrightarrow>
   merkle_while t = merkle_while t' \<Longrightarrow> t = t'"
proof (induction t arbitrary: t' rule: merkle_while.induct)
  case (1 t)
  show ?case
  proof (cases "length t > 1")
    case False
    with 1(2,6) show ?thesis
      by (subst (asm) (1 2) merkle_while.simps) simp
  next
    case True
    with 1(2) have True': "length t' > 1" by simp
    have w: "while_inputs t = level_inputs t @ while_inputs (merkle_level t)"
      "while_inputs t' = level_inputs t' @ while_inputs (merkle_level t')"
      using True True' by (subst while_inputs.simps, simp)+
    have e: "merkle_while (merkle_level t) = merkle_while (merkle_level t')"
      using 1(6) True True' by (subst (asm) (1 2) merkle_while.simps) simp
    have i1: "inj_on sha256 (set (while_inputs (merkle_level t)) \<union> set (while_inputs (merkle_level t')))"
      and i2: "inj_on sha256 (set (level_inputs t) \<union> set (level_inputs t'))"
      using 1(5) unfolding w by (auto intro: inj_on_subset)
    have "merkle_level t = merkle_level t'"
      using 1(1) [OF True _ _ _ i1 e] 1(2,3,4) merkle_level_len64
      by (simp add: length_merkle_level)
    with merkle_level_inj [OF 1(2,3,4) i2] show ?thesis by simp
  qed
qed

lemma length_merkle_while: "t \<noteq> [] \<Longrightarrow> length (merkle_while t) = 1"
proof (induction t rule: merkle_while.induct)
  case (1 t)
  show ?case
  proof (cases "length t > 1")
    case True
    then have "merkle_level t \<noteq> []"
      using length_merkle_level [of t] by (cases "merkle_level t") auto
    with 1(1) True show ?thesis by (subst merkle_while.simps) simp
  next
    case False
    with 1(2) have "length t = 1" by (cases t) auto
    with False show ?thesis by (subst merkle_while.simps) simp
  qed
qed

lemma calculateMerkleRoot_inj:
  assumes "length txs = length txs'" "txs \<noteq> []"
    and "inj_on sha256 (set (hashed_inputs txs) \<union> set (hashed_inputs txs'))"
    and "calculateMerkleRoot txs = calculateMerkleRoot txs'"
  shows "map arg_string txs = map arg_string txs'"
proof -
  let ?l = "map (\<lambda>tx. calculateHash [tx]) txs" and ?l' = "map (\<lambda>tx. calculateHash [tx]) txs'"
  have inj1: "inj_on sha256 (set (map arg_string txs) \<union> set (map arg_string txs'))"
    and inj2: "inj_on sha256 (set (while_inputs ?l) \<union> set (while_inputs ?l'))"
    using assms(3) unfolding hashed_inputs_def by (auto intro: inj_on_subset)
  have "?l = ?l'"
  proof (cases "length txs = 1")
    case True
    with assms(1) obtain a b where "txs = [a]" "txs' = [b]"
      by (cases txs; cases txs') auto
    with assms(4) show ?thesis by (simp add: calculateMerkleRoot_def)
  next
    case False
    with assms(1,2) have "length txs \<ge> 2" "length txs' \<ge> 2" by (cases txs; auto)+
    with assms(4) have "hd (merkle_while ?l) = hd (merkle_while ?l')"
      by (auto simp: calculateMerkleRoot_def split: if_splits)
    moreover have "txs' \<noteq> []" using assms(1,2) by auto
    then have "length (merkle_while ?l) = 1" "length (merkle_while ?l') = 1"
      using assms(2) length_merkle_while [of ?l] length_merkle_while [of ?l'] by simp_all
    ultimately have "merkle_while ?l = merkle_while ?l'"
      by (cases "merkle_while ?l"; cases "merkle_while ?l'") auto
    then show ?thesis
      using merkle_while_inj [of ?l ?l'] assms(1) inj2
      by (simp add: calculateHash_def length_sha256)
  qed
  then have "map sha256 (map arg_string txs) = map sha256 (map arg_string txs')"
    by (simp add: calculateHash_def comp_def)
  with inj1 show ?thesis
    by (metis inj_on_Un inj_on_map_eq_map map_eq_imp_length_eq sup_ge1 sup_ge2 inj_on_subset
        order_refl)
qed

lemma chain_valid_from_bad_block:
  "k < length bs \<Longrightarrow> merkleRoot (bs ! k) \<noteq> calculateMerkleRoot (transactions (bs ! k)) \<Longrightarrow>
   \<not> chain_valid_from p bs"
proof (induction bs arbitrary: p k)
  case Nil
  then show ?case by simp
next
  case (Cons b bs)
  then show ?case by (cases k) auto
qed

lemma chain_valid_from_roots:
  "chain_valid_from p bs \<Longrightarrow> k < length bs \<Longrightarrow>
   merkleRoot (bs ! k) = calculateMerkleRoot (transactions (bs ! k))"
  using chain_valid_from_bad_block by blast

lemma chain_valid_from_append:
  "chain_valid_from p bs \<Longrightarrow> hash b = calculateBlockHash b \<Longrightarrow>
   previousHash b = hash (last (p # bs)) \<Longrightarrow>
   merkleRoot b = calculateMerkleRoot (transactions b) \<Longrightarrow> chain_valid_from p (bs @ [b])"
  by (induction bs arbitrary: p) (auto split: if_splits)

lemma proofOfWork_result_aux:
  assumes "proofOfWork b = Some r"
  shows "snd r = calculateBlockHash (fst r) \<and> meets_target (snd r) \<and> (\<exists>n. fst r = b\<lparr>nonce := n\<rparr>)"
proof (rule proofOfWork.raw_induct
    [where P = "\<lambda>b r. snd r = calculateBlockHash (fst r) \<and> meets_target (snd r)
                     \<and> (\<exists>n. fst r = b\<lparr>nonce := n\<rparr>)", OF _ assms])
  fix pow :: "block \<Rightarrow> (block \<times> string) option" and c :: block and s :: "block \<times> string"
  assume ih: "\<And>x y. pow x = Some y \<Longrightarrow>
      snd y = calculateBlockHash (fst y) \<and> meets_target (snd y) \<and> (\<exists>n. fst y = x\<lparr>nonce := n\<rparr>)"
    and eq: "(if meets_target (calculateBlockHash c) then Some (c, calculateBlockHash c)
              else pow (c\<lparr>nonce := nonce_incr (nonce c)\<rparr>)) = Some s"
  show "snd s = calculateBlockHash (fst s) \<and> meets_target (snd s) \<and> (\<exists>n. fst s = c\<lparr>nonce := n\<rparr>)"
  proof (cases "meets_target (calculateBlockHash c)")
    case True
    with eq have "s = (c, calculateBlockHash c)" by simp
    moreover have "c = c\<lparr>nonce := nonce c\<rparr>" by simp
    ultimately show ?thesis using True by (metis fst_conv snd_conv)
  next
    case False
    with eq have "pow (c\<lparr>nonce := nonce_incr (nonce c)\<rparr>) = Some s" by simp
    from ih [OF this] show ?thesis by auto
  qed
qed

lemma proofOfWork_result:
  "proofOfWork b = Some (b', h) \<Longrightarrow>
   h = calculateBlockHash b' \<and> meets_target h \<and> b' = b\<lparr>nonce := nonce b'\<rparr>"
  using proofOfWork_result_aux [of b "(b', h)"] by auto

text \<open>Every chain produced by mining from a valid chain is valid.\<close>

lemma mined_chain_valid:
  assumes "isChainValid bc" "minePendingTransactions now bc = Some (Inr (b, bc'))"
  shows "isChainValid bc'"
proof -
  from assms(2) obtain b0 h where p: "proofOfWork (candidate_block now bc) = Some (b0, h)"
    and b: "b = b0\<lparr>hash := h\<rparr>" and bc': "bc' = bc\<lparr>chain := chain bc @ [b], pendingTransactions := []\<rparr>"
    and ne: "chain bc \<noteq> []"
    by (auto simp: minePendingTransactions_def split: if_splits option.splits)
  from proofOfWork_result [OF p] have h: "h = calculateBlockHash b0"
    and b0: "b0 = (candidate_block now bc)\<lparr>nonce := nonce b0\<rparr>" by simp_all
  obtain g rest where c: "chain bc = g # rest" using ne by (cases "chain bc") auto
  have "hash b = calculateBlockHash b"
    using h b by (simp add: calculateBlockHash_def block_args_def)
  moreover have "previousHash b = hash (last (g # rest))"
    using b b0 c by (metis (no_types, lifting) block.select_convs(4) block.surjective
        block.update_convs(5,6) candidate_block_def)
  moreover have "merkleRoot b = calculateMerkleRoot (transactions b)"
    using b b0 by (metis (no_types, lifting) block.select_convs(3,7) block.surjective
        block.update_convs(5,6) candidate_block_def)
  ultimately have "chain_valid_from g (rest @ [b])"
    using assms(1) c by (intro chain_valid_from_append) (simp_all add: isChainValid_def)
  then show ?thesis by (simp add: bc' c isChainValid_def)
qed

text \<open>
  C2. In a valid chain (every chain produced by mining is one, \<open>mined_chain_valid\<close>),
  replacing a transaction of a block after the genesis block by a value whose rendering
  under \<^verbatim>\<open>calculateHash\<close> (a string as it is, anything else through \<^verbatim>\<open>JSON.stringify\<close>)
  differs from that of the original, and storing the recomputed hash of that block, makes
  \<^verbatim>\<open>isChainValid\<close> return \<^verbatim>\<open>false\<close>: the stored Merkle root no longer matches. SHA-256
  is taken to have no collision among the texts digested for the two Merkle roots. The
  condition on the rendering cannot be dropped, as the example after the next one shows.
\<close>

theorem tamper_detected:
  assumes "isChainValid bc" and "0 < i" and "i < length (chain bc)"
    and "j < length (transactions (chain bc ! i))"
    and "arg_string tx \<noteq> arg_string (transactions (chain bc ! i) ! j)"
    and "inj_on sha256 (set (hashed_inputs (transactions (chain bc ! i)))
                       \<union> set (hashed_inputs ((transactions (chain bc ! i))[j := tx])))"
  shows "isChainValid (tamper bc i j tx) = False"
proof -
  let ?txs = "transactions (chain bc ! i)"
  obtain g rest where c: "chain bc = g # rest" using assms(3) by (cases "chain bc") auto
  obtain k where k: "i = Suc k" using assms(2) by (cases i) auto
  with assms(3) c have kl: "k < length rest" by simp
  have bk: "chain bc ! i = rest ! k" using c k by simp
  have v: "chain_valid_from g rest" using assms(1) c by (simp add: isChainValid_def)
  have mr: "merkleRoot (rest ! k) = calculateMerkleRoot ?txs"
    using chain_valid_from_roots [OF v kl] bk by simp
  have ne: "?txs \<noteq> []" using assms(4) by auto
  have "calculateMerkleRoot ?txs \<noteq> calculateMerkleRoot (?txs[j := tx])"
  proof
    assume "calculateMerkleRoot ?txs = calculateMerkleRoot (?txs[j := tx])"
    from calculateMerkleRoot_inj [OF _ ne assms(6) this]
    have "map arg_string ?txs = map arg_string (?txs[j := tx])" by simp
    then have "map arg_string ?txs ! j = map arg_string (?txs[j := tx]) ! j" by simp
    with assms(4,5) show False by simp
  qed
  let ?b = "(rest ! k)\<lparr>transactions := ?txs[j := tx]\<rparr>"
  let ?b' = "?b\<lparr>hash := calculateBlockHash ?b\<rparr>"
  have ch: "chain (tamper bc i j tx) = g # rest[k := ?b']"
    by (simp add: tamper_def Let_def c k)
  have "merkleRoot (rest[k := ?b'] ! k) \<noteq> calculateMerkleRoot (transactions (rest[k := ?b'] ! k))"
    using kl mr \<open>calculateMerkleRoot ?txs \<noteq> calculateMerkleRoot (?txs[j := tx])\<close> by simp
  then have "\<not> chain_valid_from g (rest[k := ?b'])"
    using chain_valid_from_bad_block [of k "rest[k := ?b']" g] kl by simp
  then show ?thesis by (simp add: isChainValid_def ch)
qed

lemma demo_mined_valid: "isChainValid demo_mined"
proof -
  have "isChainValid \<lparr>chain = [demo_genesis], pendingTransactions = [demo_tx]\<rparr>"
    by (simp add: isChainValid_def)
  from mined_chain_valid [OF this demo_mine [unfolded demo_ledger_def]]
  show ?thesis by (simp add: demo_mined_def)
qed

lemma hashed_inputs_single: "hashed_inputs [t] = [arg_string t]"
  by (simp add: hashed_inputs_def) (subst while_inputs.simps, simp)

theorem tamper_detected_witness:
  "isChainValid demo_mined \<and> (0::nat) < 1 \<and> 1 < length (chain demo_mined)
   \<and> 0 < length (transactions (chain demo_mined ! 1))
   \<and> arg_string demo_tx_tampered \<noteq> arg_string (transactions (chain demo_mined ! 1) ! 0)
   \<and> inj_on sha256 (set (hashed_inputs (transactions (chain demo_mined ! 1)))
        \<union> set (hashed_inputs ((transactions (chain demo_mined ! 1))[0 := demo_tx_tampered])))
   \<and> isChainValid (tamper demo_mined 1 0 demo_tx_tampered) = False"
proof -
  have txs: "transactions (chain demo_mined ! 1) = [demo_tx]"
    by (simp add: demo_mined_def demo_block_def)
  have s1: "arg_string demo_tx = ''{\"from\":\"a\",\"to\":\"b\",\"data\":\"c\",\"timestamp\":2,\"id\":\"x\"}''"
    by (simp add: demo_tx_def stringify_eval)
  have s2: "arg_string demo_tx_tampered = ''{\"from\":\"a\",\"to\":\"b\",\"data\":\"z\",\"timestamp\":2,\"id\":\"x\"}''"
    by (simp add: demo_tx_tampered_def stringify_eval)
  have ne: "arg_string demo_tx_tampered \<noteq> arg_string (transactions (chain demo_mined ! 1) ! 0)"
    unfolding txs s1 s2 nth_Cons_0 by simp
  have inj: "inj_on sha256 (set (hashed_inputs (transactions (chain demo_mined ! 1)))
        \<union> set (hashed_inputs ((transactions (chain demo_mined ! 1))[0 := demo_tx_tampered])))"
    unfolding txs by (simp add: hashed_inputs_single s1 s2 sha256_demo_tx sha256_demo_tx_tampered)
  have len: "1 < length (chain demo_mined)" "0 < length (transactions (chain demo_mined ! 1))"
    by (simp_all add: demo_mined_def demo_block_def)
  from tamper_detected [OF demo_mined_valid _ len ne inj] demo_mined_valid len ne inj
  show ?thesis by simp
qed

text \<open>
  A mutation that \<^verbatim>\<open>isChainValid\<close> does not see: the transaction object of the mined block
  is replaced by the string of its own JSON text. \<^verbatim>\<open>calculateHash\<close> renders both alike, so
  the Merkle root is unchanged, and the block hash has been recomputed.
\<close>

theorem tamper_undetected:
  "JStr (arg_string demo_tx) \<noteq> demo_tx
   \<and> isChainValid demo_mined
   \<and> isChainValid (tamper demo_mined 1 0 (JStr (arg_string demo_tx)))"
proof -
  have r: "calculateMerkleRoot [JStr (arg_string demo_tx)] = calculateMerkleRoot [demo_tx]"
    by (simp add: calculateMerkleRoot_def calculateHash_def)
  have "isChainValid (tamper demo_mined 1 0 (JStr (arg_string demo_tx)))"
    by (simp add: isChainValid_def tamper_def demo_mined_def demo_block_def Let_def
        r demo_merkleRoot demo_genesis_eq calculateBlockHash_def block_args_def)
  moreover have "isChainValid demo_mined" by (rule demo_mined_valid)
  moreover have "JStr (arg_string demo_tx) \<noteq> demo_tx" by (simp add: demo_tx_def)
  ultimately show ?thesis by simp
qed

section \<open>Key order\<close>

lemma map_of_normalized:
  "map_of (map (\<lambda>(k, v). (k, f v)) kvs) k = map_option f (map_of kvs k)"
  by (induction kvs) auto

lemma normalizeObject_same:
  "same_up_to_key_order a b \<Longrightarrow> normalizeObject a = normalizeObject b"
proof (induction rule: same_up_to_key_order.induct)
  case (same_refl j)
  show ?case by simp
next
  case (same_arr xs ys)
  then have "map normalizeObject xs = map normalizeObject ys"
    by (induction rule: list_all2_induct) simp_all
  then show ?case by simp
next
  case (same_obj kvs kvs')
  have keys: "sort (map fst kvs) = sort (map fst kvs')"
    using same_obj(1,2,3) by (intro sorted_distinct_set_unique) simp_all
  have "the (map_of (map (\<lambda>(k, v). (k, normalizeObject v)) kvs) k)
        = the (map_of (map (\<lambda>(k, v). (k, normalizeObject v)) kvs') k)"
    if "k \<in> set (map fst kvs)" for k
  proof -
    from that obtain v where v: "map_of kvs k = Some v"
      by (metis map_of_eq_None_iff not_Some_eq set_map)
    from that same_obj(3) obtain v' where v': "map_of kvs' k = Some v'"
      by (metis map_of_eq_None_iff not_Some_eq set_map)
    from same_obj(4) that v v' have "normalizeObject v = normalizeObject v'" by auto
    with v v' show ?thesis by (simp add: map_of_normalized)
  qed
  then have "map (\<lambda>key. (key, the (map_of (map (\<lambda>(k, v). (k, normalizeObject v)) kvs) key)))
                 (sort (map fst kvs))
           = map (\<lambda>key. (key, the (map_of (map (\<lambda>(k, v). (k, normalizeObject v)) kvs') key)))
                 (sort (map fst kvs))"
    by (intro map_cong) simp_all
  with keys show ?case by simp
qed

lemma same_JStr: "same_up_to_key_order a b \<Longrightarrow> (\<exists>s. a = JStr s) \<or> (\<exists>s. b = JStr s) \<Longrightarrow> a = b"
  by (induction rule: same_up_to_key_order.induct) auto

lemma MerkleTree_hash_same:
  assumes "same_up_to_key_order a b"
  shows "MerkleTree_hash a = MerkleTree_hash b"
proof (cases "(\<exists>s. a = JStr s) \<or> (\<exists>s. b = JStr s)")
  case True
  with same_JStr [OF assms] show ?thesis by simp
next
  case False
  then have "MerkleTree_hash a = sha256 (stringify (normalizeObject a))"
    "MerkleTree_hash b = sha256 (stringify (normalizeObject b))"
    by (auto simp: MerkleTree_hash_def split: json.splits)
  with normalizeObject_same [OF assms] show ?thesis by simp
qed

text \<open>
  C10. The ledger's Merkle root renders each transaction by \<^verbatim>\<open>JSON.stringify\<close> as it is,
  so two transaction lists that differ only in the order of object keys can have different
  roots (the lists \<open>[reordered_a]\<close> and \<open>[reordered_b]\<close> do), while the root of the Merkle
  tree, which sorts keys recursively before hashing, is the same for any two such lists.
\<close>

theorem key_order_roots:
  "(\<forall>xs ys. list_all2 same_up_to_key_order xs ys \<longrightarrow> root (buildTree xs) = root (buildTree ys))
   \<and> list_all2 same_up_to_key_order [reordered_a] [reordered_b]
   \<and> calculateMerkleRoot [reordered_a] \<noteq> calculateMerkleRoot [reordered_b]"
proof (intro conjI allI impI)
  fix xs ys assume a: "list_all2 same_up_to_key_order xs ys"
  then have "map MerkleTree_hash xs = map MerkleTree_hash ys"
    by (induction rule: list_all2_induct) (simp_all add: MerkleTree_hash_same)
  moreover have "length xs = length ys" using a by (rule list_all2_lengthD)
  ultimately show "root (buildTree xs) = root (buildTree ys)"
    by (simp add: buildTree_def)
next
  have "same_up_to_key_order reordered_a reordered_b"
    unfolding reordered_a_def reordered_b_def
    by (rule same_obj) (auto intro: same_refl)
  then show "list_all2 same_up_to_key_order [reordered_a] [reordered_b]" by simp
next
  have "calculateMerkleRoot [reordered_a] = ''43258cff783fe7036d8a43033f830adfc60ec037382473548ac742b888292777''"
    by (simp add: calculateMerkleRoot_def calculateHash_def reordered_a_def stringify_eval
        sha256_reordered_a)
  moreover have "calculateMerkleRoot [reordered_b] = ''3fb75453225c732a76b7899ea2096dda1455189c89817239732182f73fe5a09f''"
    by (simp add: calculateMerkleRoot_def calculateHash_def reordered_b_def stringify_eval
        sha256_reordered_b)
  ultimately show "calculateMerkleRoot [reordered_a] \<noteq> calculateMerkleRoot [reordered_b]"
    by simp
qed

theorem key_order_roots_witness:
  "list_all2 same_up_to_key_order [reordered_a] [reordered_b]
   \<and> root (buildTree [reordered_a]) = root (buildTree [reordered_b])
   \<and> calculateMerkleRoot [reordered_a] \<noteq> calculateMerkleRoot [reordered_b]"
  using key_order_roots by blast

subsection \<open>The quorum\<close>



subsection \<open>Chain synchronisation\<close>

lemma validateChain_good: "validateChain good_chain = Inr True"
  by (simp add: validateChain_def good_chain_def)

lemma validateChain_bad: "validateChain bad_chain = Inr False"
  by (simp add: validateChain_def bad_chain_def)

lemma length_demo_chain: "length (chain (ledger demo_engine)) = 1"
  by (simp add: demo_engine_def demo_ledger_def)

text \<open>
  C6. \<^verbatim>\<open>syncChain\<close> on the example engine, whose local chain has one block. Given the
  candidate of three blocks that validates, it reports that chain as the replacement. Given
  the same candidate together with a one-block candidate that does not validate, it reports
  \<^verbatim>\<open>success: false\<close>, \<^verbatim>\<open>chainValid: false\<close> and \<^verbatim>\<open>Invalid chain provided\<close>, although the
  only candidate longer than the local chain validates. The engine is unchanged in both.
\<close>

theorem syncChain_rejects_valid_longest:
  "validateChain good_chain = Inr True
   \<and> validateChain bad_chain = Inr False
   \<and> syncChain demo_engine (JArr [good_chain])
       = Inr (\<lparr>sr_success = True, sr_synced = True, sr_localChainLength = 1,
                sr_newChainLength = Some 3, sr_chainReplaced = Some True, sr_chainValid = True,
                sr_message = ''Chain synchronized: 3 blocks''\<rparr>, demo_engine)
   \<and> syncChain demo_engine (JArr [good_chain, bad_chain])
       = Inr (\<lparr>sr_success = False, sr_synced = False, sr_localChainLength = 1,
                sr_newChainLength = None, sr_chainReplaced = None, sr_chainValid = False,
                sr_message = ''Invalid chain provided''\<rparr>, demo_engine)"
proof -
  obtain gb where gb: "good_chain = JArr gb" "length gb = 3"
    by (simp add: good_chain_def)
  obtain bb where bb: "bad_chain = JArr bb" "length bb = 1"
    by (simp add: bad_chain_def)
  have vg: "validateChain (JArr gb) = Inr True" using validateChain_good gb by simp
  have vb: "validateChain (JArr bb) = Inr False" using validateChain_bad bb by simp
  have l1: "sync_loop [JArr gb] (None, 1, False) = Inr (Some (JArr gb), 3, False)"
    by (simp add: vg gb(2))
  have l2: "sync_loop [JArr gb, JArr bb] (None, 1, False) = Inr (Some (JArr gb), 3, True)"
    by (simp add: vg vb gb(2) bb(2))
  show ?thesis
    by (simp add: gb bb vg vb syncChain_def length_demo_chain
        l1 l2 sync_report_def show_nat.simps digit_char_def Let_def)
qed

text \<open>
  C7. For a non-empty \<^verbatim>\<open>blockHash\<close>, \<^verbatim>\<open>voteOnBlock\<close> fails with the not-found error when
  no proposal is registered under it. When the proposal is registered together with its
  vote map, it fails with the duplicate-vote error if this node is already in the map, and
  with the invalid-vote error if the vote is a yes and \<^verbatim>\<open>validateBlockProposal\<close> returns
  \<^verbatim>\<open>false\<close>. Otherwise (a no vote, or \<^verbatim>\<open>validateBlockProposal\<close> returns \<^verbatim>\<open>true\<close>) the call
  returns with the vote appended to the vote map, unless the vote is a yes that reaches the
  quorum and the nonce search of the mining it triggers does not end. If that mining fails
  with an error, the returned engine is the one with the vote recorded and nothing else
  changed, and the result carries no block.
\<close>

theorem voteOnBlock_spec:
  assumes "h \<noteq> []"
  shows
   "(pendingValidations st h = None \<longrightarrow> voteOnBlock now mineNow h v st = Some (Inl NotFound))
  \<and> (pendingValidations st h = Some e \<and> votes st h = Some vm \<longrightarrow>
       (nodeId (nodeManager st) \<in> fst ` set vm
          \<longrightarrow> voteOnBlock now mineNow h v st = Some (Inl DuplicateVote))
     \<and> (nodeId (nodeManager st) \<notin> fst ` set vm \<and> v
          \<and> validateBlockProposal (ledger st) (proposal e) = Inr False
          \<longrightarrow> voteOnBlock now mineNow h v st = Some (Inl InvalidVote))
     \<and> (nodeId (nodeManager st) \<notin> fst ` set vm
          \<and> (v \<longrightarrow> validateBlockProposal (ledger st) (proposal e) = Inr True)
          \<longrightarrow> (if v \<and> consensus_reached
                        (yes_votes (vm @ [(nodeId (nodeManager st),
                                           make_vote now h v (nodeId (nodeManager st)))]))
                        (getNodeCount (nodeManager st))
                     \<and> minePendingTransactions mineNow (ledger st) = None
               then voteOnBlock now mineNow h v st = None
               else \<exists>r st'. voteOnBlock now mineNow h v st = Some (Inr (r, st'))
                      \<and> vr_vote r = make_vote now h v (nodeId (nodeManager st))
                      \<and> votes st' h
                          = Some (vm @ [(nodeId (nodeManager st),
                                         make_vote now h v (nodeId (nodeManager st)))])))
     \<and> (nodeId (nodeManager st) \<notin> fst ` set vm \<and> v
          \<and> validateBlockProposal (ledger st) (proposal e) = Inr True
          \<and> consensus_reached
               (yes_votes (vm @ [(nodeId (nodeManager st),
                                  make_vote now h v (nodeId (nodeManager st)))]))
               (getNodeCount (nodeManager st))
          \<and> minePendingTransactions mineNow (ledger st) = Some (Inl err)
          \<longrightarrow> (\<exists>r. voteOnBlock now mineNow h v st
                    = Some (Inr (r, st\<lparr>votes := (votes st)
                                        (h \<mapsto> vm @ [(nodeId (nodeManager st),
                                                      make_vote now h v (nodeId (nodeManager st)))]),
                                      pendingValidations := (pendingValidations st)
                                        (h \<mapsto> e\<lparr>entry_votes := entry_votes e
                                              @ [make_vote now h v (nodeId (nodeManager st))]\<rparr>)\<rparr>))
                  \<and> vr_block r = None)))"
proof -
  let ?nid = "nodeId (nodeManager st)"
  let ?vt = "make_vote now h v ?nid"
  let ?vm' = "vm @ [(?nid, ?vt)]"
  have c1: "pendingValidations st h = None \<Longrightarrow> voteOnBlock now mineNow h v st = Some (Inl NotFound)"
    using assms by (simp add: voteOnBlock_def)
  have c2: "voteOnBlock now mineNow h v st = Some (Inl DuplicateVote)"
    if "pendingValidations st h = Some e" "votes st h = Some vm" "?nid \<in> fst ` set vm"
    using assms that by (simp add: voteOnBlock_def)
  have c3: "voteOnBlock now mineNow h v st = Some (Inl InvalidVote)"
    if "pendingValidations st h = Some e" "votes st h = Some vm" "?nid \<notin> fst ` set vm" "v"
       "validateBlockProposal (ledger st) (proposal e) = Inr False"
    using assms that by (simp add: voteOnBlock_def)
  have c4: "if v \<and> consensus_reached (yes_votes ?vm') (getNodeCount (nodeManager st))
               \<and> minePendingTransactions mineNow (ledger st) = None
            then voteOnBlock now mineNow h v st = None
            else \<exists>r st'. voteOnBlock now mineNow h v st = Some (Inr (r, st'))
                   \<and> vr_vote r = ?vt \<and> votes st' h = Some ?vm'"
    if "pendingValidations st h = Some e" "votes st h = Some vm" "?nid \<notin> fst ` set vm"
       "v \<longrightarrow> validateBlockProposal (ledger st) (proposal e) = Inr True"
    using assms that
    by (cases "minePendingTransactions mineNow (ledger st)")
       (auto simp add: voteOnBlock_def Let_def split: sum.splits)
  have c5: "\<exists>r. voteOnBlock now mineNow h v st
                = Some (Inr (r, st\<lparr>votes := (votes st)(h \<mapsto> ?vm'),
                                  pendingValidations := (pendingValidations st)
                                    (h \<mapsto> e\<lparr>entry_votes := entry_votes e @ [?vt]\<rparr>)\<rparr>))
              \<and> vr_block r = None"
    if "pendingValidations st h = Some e" "votes st h = Some vm" "?nid \<notin> fst ` set vm" "v"
       "validateBlockProposal (ledger st) (proposal e) = Inr True"
       "consensus_reached (yes_votes ?vm') (getNodeCount (nodeManager st))"
       "minePendingTransactions mineNow (ledger st) = Some (Inl err)"
    using assms that by (simp add: voteOnBlock_def Let_def)
  show ?thesis
    using c1 c2 c3 c4 c5 by blast
qed

theorem voteOnBlock_spec_witness:
  "voteOnBlock 7 8 ''h'' True demo_engine = Some (Inl NotFound)
   \<and> voteOnBlock 7 8 (hash demo_proposal) True demo_two_yes = Some (Inl DuplicateVote)
   \<and> voteOnBlock 7 8 (hash demo_proposal) True demo_unstamped = Some (Inl InvalidVote)
   \<and> (\<exists>r st'. voteOnBlock 7 8 (hash demo_proposal) True demo_voting = Some (Inr (r, st'))
          \<and> votes st' (hash demo_proposal)
              = Some [(''n1'', make_vote 7 (hash demo_proposal) True ''n1'')])
   \<and> minePendingTransactions 8 (ledger demo_solo) = Some (Inl EmptyInput)
   \<and> (\<exists>r. voteOnBlock 7 8 (hash demo_block) True demo_solo
             = Some (Inr (r, demo_solo
                   \<lparr>votes := (votes demo_solo)
                      (hash demo_block \<mapsto> [(''n1'', make_vote 7 (hash demo_block) True ''n1'')]),
                    pendingValidations := (pendingValidations demo_solo)
                      (hash demo_block \<mapsto> \<lparr>proposal = demo_block,
                          entry_votes = [make_vote 7 (hash demo_block) True ''n1''],
                          createdAt = 5\<rparr>)\<rparr>))
           \<and> vr_block r = None)"
proof -
  have hp: "hash demo_proposal \<noteq> []"
    unfolding demo_proposal_def by (rule hash_block_proposal_nonempty)
  have w1: "voteOnBlock 7 8 ''h'' True demo_engine = Some (Inl NotFound)"
    using voteOnBlock_spec [where h = "''h''" and st = demo_engine and now = 7 and mineNow = 8
        and v = True]
    by (simp add: demo_engine_facts)
  have w2: "voteOnBlock 7 8 (hash demo_proposal) True demo_two_yes = Some (Inl DuplicateVote)"
    using voteOnBlock_spec [OF hp, where st = demo_two_yes and now = 7 and mineNow = 8
        and v = True
        and e = "\<lparr>proposal = demo_proposal, entry_votes = [], createdAt = 5\<rparr>"
        and vm = "[(''n1'', make_vote 6 (hash demo_proposal) True ''n1''),
                   (''n2'', make_vote 6 (hash demo_proposal) True ''n2'')]"]
    by (simp add: demo_two_yes_facts)
  have w3: "voteOnBlock 7 8 (hash demo_proposal) True demo_unstamped = Some (Inl InvalidVote)"
    using voteOnBlock_spec [OF hp, where st = demo_unstamped and now = 7 and mineNow = 8
        and v = True
        and e = "\<lparr>proposal = demo_proposal\<lparr>timestamp := 0\<rparr>, entry_votes = [], createdAt = 5\<rparr>"
        and vm = "[]"]
    by (simp add: demo_unstamped_facts validate_unstamped)
  have w4: "\<exists>r st'. voteOnBlock 7 8 (hash demo_proposal) True demo_voting = Some (Inr (r, st'))
          \<and> votes st' (hash demo_proposal)
              = Some [(''n1'', make_vote 7 (hash demo_proposal) True ''n1'')]"
    using voteOnBlock_spec [OF hp, where st = demo_voting and now = 7 and mineNow = 8
        and v = True
        and e = "\<lparr>proposal = demo_proposal, entry_votes = [], createdAt = 5\<rparr>"
        and vm = "[]"]
    by (auto simp add: demo_voting_facts validate_demo_proposal yes_votes_single
        quorum_1_3)
  have w5: "\<exists>r. voteOnBlock 7 8 (hash demo_block) True demo_solo
             = Some (Inr (r, demo_solo
                   \<lparr>votes := (votes demo_solo)
                      (hash demo_block \<mapsto> [(''n1'', make_vote 7 (hash demo_block) True ''n1'')]),
                    pendingValidations := (pendingValidations demo_solo)
                      (hash demo_block \<mapsto> \<lparr>proposal = demo_block,
                          entry_votes = [make_vote 7 (hash demo_block) True ''n1''],
                          createdAt = 5\<rparr>)\<rparr>))
           \<and> vr_block r = None"
    using voteOnBlock_spec [OF demo_solo_facts(6), where st = demo_solo and now = 7
        and mineNow = 8 and v = True
        and e = "\<lparr>proposal = demo_block, entry_votes = [], createdAt = 5\<rparr>"
        and vm = "[]" and err = EmptyInput]
    by (simp add: demo_solo_facts(1-5) validate_demo_block yes_votes_single
        quorum_1_1 mine_demo_mined)
  show ?thesis using w1 w2 w3 w4 w5 by (simp add: demo_solo_facts(5) mine_demo_mined)
qed

text \<open>
  With the empty string as \<^verbatim>\<open>blockHash\<close>, which matches no registered proposal, the error
  is \<^verbatim>\<open>blockHash is required\<close> and not the not-found error.
\<close>

theorem voteOnBlock_empty_hash:
  "pendingValidations demo_engine [] = None
   \<and> voteOnBlock 7 8 [] True demo_engine = Some (Inl HashRequired)"
  by (simp add: demo_engine_facts voteOnBlock_def)

end
